theory Spec2Isabelle
  imports Complex_Main "HOL-Library.Sublist" "HOL-Library.AList"
begin

section \<open>JavaScript values and objects\<close>

text \<open>
  The primitive values that configuration objects and JSON request bodies carry.
  Numbers are kept exact: the program never computes with them, it only tests them for
  truthiness and passes them on.
\<close>

datatype jsval = JUndefined | JNull | JBool bool | JNum rat | JStr string

fun truthy :: "jsval \<Rightarrow> bool" where
  "truthy JUndefined = False"
| "truthy JNull = False"
| "truthy (JBool b) = b"
| "truthy (JNum r) = (r \<noteq> 0)"
| "truthy (JStr s) = (s \<noteq> [])"

text \<open>\<^verbatim>\<open>a || b\<close>\<close>

definition js_or :: "jsval \<Rightarrow> jsval \<Rightarrow> jsval" where
  "js_or a b = (if truthy a then a else b)"

text \<open>An object literal: its keys with their values, in insertion order.\<close>

type_synonym js_object = "(string \<times> jsval) list"

text \<open>\<^verbatim>\<open>obj.key\<close>: a key that is absent reads as \<^verbatim>\<open>undefined\<close>.\<close>

definition getProp :: "js_object \<Rightarrow> string \<Rightarrow> jsval" where
  "getProp obj k = (case map_of obj k of None \<Rightarrow> JUndefined | Some v \<Rightarrow> v)"

text \<open>
  \<^verbatim>\<open>{ ...a, ...b }\<close>: the keys of \<open>a\<close>, overwritten or extended by those of \<open>b\<close>. Where a
  list names a key twice, its first entry is the one \<open>getProp\<close> reads, and the one that is
  copied.
\<close>

definition spread :: "js_object \<Rightarrow> js_object \<Rightarrow> js_object" where
  "spread a b = AList.merge a b"

text \<open>\<^verbatim>\<open>s.includes(sub)\<close>\<close>

definition str_includes :: "string \<Rightarrow> string \<Rightarrow> bool" where
  "str_includes s sub = sublist sub s"


section \<open>Model configuration and statistics\<close>

record ModelConfig =
  name :: string
  provider :: string
  config :: js_object

definition geminiConfig :: "rat \<Rightarrow> js_object" where
  "geminiConfig maxOut =
     [(''temperature'', JNum (7 / 10)), (''topK'', JNum 40), (''topP'', JNum (95 / 100)),
      (''maxOutputTokens'', JNum maxOut)]"

definition geminiModel :: "string \<Rightarrow> rat \<Rightarrow> ModelConfig" where
  "geminiModel n maxOut = \<lparr>name = n, provider = ''gemini'', config = geminiConfig maxOut\<rparr>"

definition MODEL_PRIORITY :: "ModelConfig list" where
  "MODEL_PRIORITY =
     [geminiModel ''gemini-2.5-flash'' 8000,
      geminiModel ''gemini-2.5-flash-lite'' 8000,
      \<lparr>name = ''llama-3.3-70b-versatile'', provider = ''groq'',
        config = [(''temperature'', JNum (7 / 10)), (''max_tokens'', JNum 8000)]\<rparr>,
      geminiModel ''gemini-2.5-flash-tts'' 800,
      geminiModel ''gemini-3-flash'' 8000,
      geminiModel ''gemma-3-12b'' 8000,
      geminiModel ''gemma-3-1b'' 8000,
      geminiModel ''gemma-3-27b'' 8000,
      geminiModel ''gemma-3-2b'' 8000,
      geminiModel ''gemma-3-4b'' 8000,
      geminiModel ''gemini-robotics-er-1.5-preview'' 8000]"

record ModelStats =
  attempts :: nat
  failures :: nat
  lastFailure :: "int option"
  rateLimitHits :: nat

definition freshStats :: ModelStats where
  "freshStats = \<lparr>attempts = 0, failures = 0, lastFailure = None, rateLimitHits = 0\<rparr>"

text \<open>
  \<^verbatim>\<open>const modelStats = new Map(); MODEL_PRIORITY.forEach(model => modelStats.set(model.name, {...}))\<close>
\<close>

definition initialModelStats :: "string \<rightharpoonup> ModelStats" where
  "initialModelStats = fold (\<lambda>m acc. acc(name m \<mapsto> freshStats)) MODEL_PRIORITY Map.empty"

text \<open>
  \<^verbatim>\<open>stats.lastFailure && (Date.now() - stats.lastFailure) < 60000\<close>, with the value read
  from the clock as \<open>now\<close>. A timestamp of \<open>0\<close> is falsy, like \<^verbatim>\<open>null\<close>.
\<close>

definition recentlyRateLimited :: "ModelStats \<Rightarrow> int \<Rightarrow> bool" where
  "recentlyRateLimited st now =
     (case lastFailure st of None \<Rightarrow> False | Some t \<Rightarrow> t \<noteq> 0 \<and> now - t < 60000)"


section \<open>Errors and the providers\<close>

text \<open>What a provider call throws: an error whose \<^verbatim>\<open>message\<close> may be missing.\<close>

datatype js_error = JsError (message: "string option")

text \<open>What the program itself throws.\<close>

datatype exn = AppError string nat | TypeError

datatype 'a outcome = Throws js_error | Resolves 'a

text \<open>The rate-limit test of both \<^verbatim>\<open>catch\<close> blocks.\<close>

definition isRateLimit :: "js_error \<Rightarrow> bool" where
  "isRateLimit e =
     (case message e of
        None \<Rightarrow> False
      | Some m \<Rightarrow> str_includes m ''RESOURCE_EXHAUSTED'' \<or> str_includes m ''429'' \<or> str_includes m ''quota''
                  \<or> str_includes m ''rate limit'' \<or> str_includes m ''Rate limit'')"

text \<open>The body of the \<^verbatim>\<open>catch\<close> blocks, on the statistics object of the candidate.\<close>

definition onFailure :: "ModelStats \<Rightarrow> js_error \<Rightarrow> int \<Rightarrow> ModelStats" where
  "onFailure st e now =
     (let st1 = st\<lparr>failures := failures st + 1\<rparr>
      in if isRateLimit e
         then st1\<lparr>rateLimitHits := rateLimitHits st1 + 1, lastFailure := Some now\<rparr>
         else st1)"

record groq_message =
  role :: string
  content :: jsval

record groq_request =
  model :: string
  messages :: "groq_message list"
  temperature :: jsval
  max_tokens :: jsval

record image_part =
  data :: string
  mimeType :: string

text \<open>\<^verbatim>\<open>model.generateContent(prompt)\<close> or \<^verbatim>\<open>model.generateContent([prompt, ...imageParts])\<close>\<close>

datatype gemini_contents = Prompt string | PromptWithParts string "image_part list"

record gemini_request =
  gmodel :: string
  generationConfig :: js_object
  contents :: gemini_contents

text \<open>
  A Gemini chat object: the \<^verbatim>\<open>modelName\<close> the program attaches to it, the generation
  configuration of the model it was started on, and the dialogue so far (role and text of
  each turn).
\<close>

record chat =
  modelName :: string
  chatConfig :: js_object
  history :: "(string \<times> jsval) list"

text \<open>
  A provider request. For \<^verbatim>\<open>chat.sendMessage(message)\<close> it records the chat object as it
  was when the message was sent.
\<close>

datatype call =
  GroqCreate groq_request
| GeminiGenerate gemini_request
| GeminiSend chat jsval

text \<open>
  What \<^verbatim>\<open>await chat.sendMessage(message)\<close> leaves behind when it resolves: the turns the
  SDK has appended to the history of the chat object by then (none for a response without
  candidates), and what \<^verbatim>\<open>result.response.text()\<close> will do, return the text or throw.
\<close>

record send_result =
  appended :: "(string \<times> jsval) list"
  responseText :: "string outcome"

text \<open>
  The world outside the program during one call of an orchestrator function: what each
  provider request resolves to or throws, and what \<^verbatim>\<open>Date.now()\<close> returns when the
  candidate at position \<open>i\<close> of the registry is tested for cooldown (\<open>nowCheck\<close>) and
  when its failure is recorded (\<open>nowCatch\<close>). A Groq request resolves to
  \<^verbatim>\<open>completion.choices[0]?.message?.content\<close>, a Gemini generate request to
  \<^verbatim>\<open>result.response.text()\<close>; \<^verbatim>\<open>chat.sendMessage\<close> throws or resolves as described above.
\<close>

record env =
  groqCreate :: "groq_request \<Rightarrow> string option outcome"
  geminiGenerate :: "gemini_request \<Rightarrow> string outcome"
  geminiSend :: "chat \<Rightarrow> jsval \<Rightarrow> send_result outcome"
  nowCheck :: "nat \<Rightarrow> int"
  nowCatch :: "nat \<Rightarrow> int"

text \<open>
  The shared state. Chat objects are mutable and shared between \<^verbatim>\<open>chatSessions\<close> and the
  variables of a running call, so they live in a store of their own: \<open>chatObjects\<close> holds
  the chat objects created so far, and a reference to one is its position there.
  \<^verbatim>\<open>chatSessions\<close> maps a session key to a reference. \<open>issued\<close> lists the provider requests
  issued so far, oldest first.
\<close>

record state =
  modelStats :: "string \<rightharpoonup> ModelStats"
  chatObjects :: "chat list"
  chatSessions :: "jsval \<rightharpoonup> nat"
  issued :: "call list"

definition initialState :: state where
  "initialState =
     \<lparr>modelStats = initialModelStats, chatObjects = [], chatSessions = Map.empty, issued = []\<rparr>"

definition setStats :: "string \<Rightarrow> ModelStats \<Rightarrow> state \<Rightarrow> state" where
  "setStats n st s = s\<lparr>modelStats := (modelStats s)(n \<mapsto> st)\<rparr>"

definition issue :: "call \<Rightarrow> state \<Rightarrow> state" where
  "issue c s = s\<lparr>issued := issued s @ [c]\<rparr>"


section \<open>generateWithFallback\<close>

record gen_result =
  resultText :: string
  modelUsed :: string
  providerUsed :: string
  success :: bool

text \<open>\<^verbatim>\<open>lastError?.message || 'Unknown'\<close>\<close>

definition lastErrorMessage :: "js_error option \<Rightarrow> string" where
  "lastErrorMessage le =
     (case le of
        None \<Rightarrow> ''Unknown''
      | Some e \<Rightarrow> (case message e of None \<Rightarrow> ''Unknown''
                   | Some m \<Rightarrow> if m = [] then ''Unknown'' else m))"

definition generateExhausted :: "js_error option \<Rightarrow> exn" where
  "generateExhausted le =
     AppError (''AI service temporarily unavailable. Please try again in a moment. Last error: ''
               @ lastErrorMessage le) 503"

definition groqGenerateRequest :: "ModelConfig \<Rightarrow> string \<Rightarrow> js_object \<Rightarrow> groq_request" where
  "groqGenerateRequest mc prompt customConfig =
     \<lparr>model = name mc,
      messages = [\<lparr>role = ''user'', content = JStr prompt\<rparr>],
      temperature = js_or (getProp customConfig ''temperature'') (getProp (config mc) ''temperature''),
      max_tokens = js_or (getProp customConfig ''maxOutputTokens'') (getProp (config mc) ''max_tokens'')\<rparr>"

definition geminiGenerateRequest ::
  "ModelConfig \<Rightarrow> string \<Rightarrow> js_object \<Rightarrow> image_part list option \<Rightarrow> gemini_request" where
  "geminiGenerateRequest mc prompt customConfig imageParts =
     \<lparr>gmodel = name mc,
      generationConfig = spread (config mc) customConfig,
      contents = (case imageParts of None \<Rightarrow> Prompt prompt
                  | Some ps \<Rightarrow> PromptWithParts prompt ps)\<rparr>"

definition genSuccess :: "ModelConfig \<Rightarrow> string \<Rightarrow> string \<Rightarrow> gen_result" where
  "genSuccess mc p t = \<lparr>resultText = t, modelUsed = name mc, providerUsed = p, success = True\<rparr>"

text \<open>\<^verbatim>\<open>completion.choices[0]?.message?.content || ''\<close>\<close>

definition contentOrEmpty :: "string option \<Rightarrow> string" where
  "contentOrEmpty c = (case c of None \<Rightarrow> [] | Some t \<Rightarrow> t)"

text \<open>
  How one pass through the body of a \<^verbatim>\<open>for\<close> loop ends: with \<^verbatim>\<open>return\<close>, with an
  exception that leaves the function, or with \<^verbatim>\<open>continue\<close> (or the end of the
  \<^verbatim>\<open>catch\<close> block), which hands the loop's variables to the next pass.
\<close>

datatype ('r, 'v) flow = Returned 'r | Thrown exn | Continued 'v

text \<open>
  The body of the \<^verbatim>\<open>for (const modelConfig of MODEL_PRIORITY)\<close> loop of
  \<^verbatim>\<open>generateWithFallback\<close> for the candidate \<open>mc\<close> at position \<open>i\<close>; \<open>lastError\<close> is
  the variable of that name. \<^verbatim>\<open>imageParts\<close> is \<open>None\<close> for \<^verbatim>\<open>null\<close>; an array, even
  an empty one, is truthy. A name without an entry in \<^verbatim>\<open>modelStats\<close> makes
  \<^verbatim>\<open>stats.attempts++\<close> a \<^verbatim>\<open>TypeError\<close>.
\<close>

definition generateBody ::
  "env \<Rightarrow> string \<Rightarrow> js_object \<Rightarrow> image_part list option \<Rightarrow> nat \<Rightarrow> ModelConfig
     \<Rightarrow> js_error option \<Rightarrow> state \<Rightarrow> state \<times> (gen_result, js_error option) flow" where
  "generateBody w prompt customConfig imageParts i mc lastError s =
     (case modelStats s (name mc) of
        None \<Rightarrow> (s, Thrown TypeError)
      | Some stats \<Rightarrow>
          (let stats1 = stats\<lparr>attempts := attempts stats + 1\<rparr>;
               s1 = setStats (name mc) stats1 s
           in if recentlyRateLimited stats1 (nowCheck w i) then (s1, Continued lastError)
              else if provider mc = ''groq''
              then (if imageParts \<noteq> None then (s1, Continued lastError)
                    else (let req = groqGenerateRequest mc prompt customConfig;
                              s2 = issue (GroqCreate req) s1
                          in (case groqCreate w req of
                                Resolves c \<Rightarrow> (s2, Returned (genSuccess mc ''groq'' (contentOrEmpty c)))
                              | Throws e \<Rightarrow>
                                  (setStats (name mc) (onFailure stats1 e (nowCatch w i)) s2,
                                   Continued (Some e)))))
              else (let req = geminiGenerateRequest mc prompt customConfig imageParts;
                        s2 = issue (GeminiGenerate req) s1
                    in (case geminiGenerate w req of
                          Resolves t \<Rightarrow> (s2, Returned (genSuccess mc ''gemini'' t))
                        | Throws e \<Rightarrow>
                            (setStats (name mc) (onFailure stats1 e (nowCatch w i)) s2,
                             Continued (Some e))))))"

text \<open>
  The loop over the candidates still to visit, and the \<^verbatim>\<open>throw\<close> after it.
\<close>

fun generateLoop ::
  "env \<Rightarrow> string \<Rightarrow> js_object \<Rightarrow> image_part list option \<Rightarrow> nat \<Rightarrow> ModelConfig list
     \<Rightarrow> js_error option \<Rightarrow> state \<Rightarrow> state \<times> (exn + gen_result)" where
  "generateLoop w prompt customConfig imageParts i [] lastError s =
     (s, Inl (generateExhausted lastError))"
| "generateLoop w prompt customConfig imageParts i (mc # rest) lastError s =
     (case generateBody w prompt customConfig imageParts i mc lastError s of
        (s', Returned r) \<Rightarrow> (s', Inr r)
      | (s', Thrown e) \<Rightarrow> (s', Inl e)
      | (s', Continued lastError') \<Rightarrow>
          generateLoop w prompt customConfig imageParts (Suc i) rest lastError' s')"

definition generateWithFallback ::
  "env \<Rightarrow> string \<Rightarrow> js_object \<Rightarrow> image_part list option \<Rightarrow> state \<Rightarrow> state \<times> (exn + gen_result)" where
  "generateWithFallback w prompt customConfig imageParts s =
     generateLoop w prompt customConfig imageParts 0 MODEL_PRIORITY None s"


section \<open>chatWithFallback\<close>

record chat_result =
  reply :: string
  resultChat :: "nat option"
  chatModelUsed :: string
  chatProviderUsed :: string
  chatSuccess :: bool

definition systemMessage :: string where
  "systemMessage = ''You are Dr. AI, the official medical assistant for the DocOnCall platform. Your role is to be a friendly and empathetic medical assistant chatbot for a virtual healthcare platform. Your role is to: 1) Ask relevant questions about symptoms, 2) Provide general health guidance, 3) Show empathy and be reassuring, 4) Keep responses concise (2-4 sentences), 5) ALWAYS remind users this is not a replacement for professional medical advice. Be warm, professional, and helpful.''"

definition greeting :: string where
  "greeting = ''Hello! I'' @ [CHR 0x27] @ ''m Dr. AI, your virtual health assistant. I'' @ [CHR 0x27] @ ''m here to help answer your health questions and provide general guidance. Please remember that I'' @ [CHR 0x27] @ ''m not a replacement for professional medical advice. How can I assist you today?''"

definition chatExhausted :: exn where
  "chatExhausted = AppError ''AI chat temporarily unavailable. Please try again in a moment.'' 503"

definition groqChatRequest :: "ModelConfig \<Rightarrow> jsval \<Rightarrow> groq_request" where
  "groqChatRequest mc msg =
     \<lparr>model = name mc,
      messages = [\<lparr>role = ''system'', content = JStr systemMessage\<rparr>,
                  \<lparr>role = ''user'', content = msg\<rparr>],
      temperature = getProp (config mc) ''temperature'',
      max_tokens = getProp (config mc) ''max_tokens''\<rparr>"

text \<open>
  \<^verbatim>\<open>genAI.getGenerativeModel({model, generationConfig}).startChat({history: [...]})\<close>
  followed by \<^verbatim>\<open>chat.modelName = modelConfig.name\<close>.
\<close>

definition initialHistory :: "(string \<times> jsval) list" where
  "initialHistory = [(''user'', JStr systemMessage), (''model'', JStr greeting)]"

definition startChat :: "ModelConfig \<Rightarrow> chat" where
  "startChat mc = \<lparr>modelName = name mc, chatConfig = config mc, history = initialHistory\<rparr>"

text \<open>The chat object a reference denotes. A reference always denotes an object; one that
  lies beyond the objects created so far denotes none.\<close>

definition chatAt :: "state \<Rightarrow> nat \<Rightarrow> chat option" where
  "chatAt s a = (if a < length (chatObjects s) then Some (chatObjects s ! a) else None)"

text \<open>A new chat object for the candidate: its reference, its value, and the state with the
  object in it.\<close>

definition startChatFor :: "ModelConfig \<Rightarrow> state \<Rightarrow> (nat \<times> chat) \<times> state" where
  "startChatFor mc s =
     ((length (chatObjects s), startChat mc), s\<lparr>chatObjects := chatObjects s @ [startChat mc]\<rparr>)"

text \<open>
  \<^verbatim>\<open>if (!chat || chat.modelName !== modelConfig.name) { chat = ... }\<close>: the reference
  the variable \<^verbatim>\<open>chat\<close> holds afterwards, with the object it denotes. A reference that
  denotes no object is read as no chat.
\<close>

definition chatFor :: "ModelConfig \<Rightarrow> nat option \<Rightarrow> state \<Rightarrow> (nat \<times> chat) \<times> state" where
  "chatFor mc ch s =
     (case ch of
        None \<Rightarrow> startChatFor mc s
      | Some a \<Rightarrow>
          (case chatAt s a of
             None \<Rightarrow> startChatFor mc s
           | Some c \<Rightarrow> if modelName c \<noteq> name mc then startChatFor mc s else ((a, c), s)))"

text \<open>
  The SDK appends turns to the history of the chat object behind the reference \<open>a\<close>. The
  object is changed in place: whoever holds the reference sees the longer history.
\<close>

definition appendTurns :: "nat \<Rightarrow> (string \<times> jsval) list \<Rightarrow> state \<Rightarrow> state" where
  "appendTurns a ts s =
     (case chatAt s a of
        None \<Rightarrow> s
      | Some c \<Rightarrow> s\<lparr>chatObjects := (chatObjects s)[a := c\<lparr>history := history c @ ts\<rparr>]\<rparr>)"

definition chatSuccessResult :: "ModelConfig \<Rightarrow> string \<Rightarrow> string \<Rightarrow> nat option \<Rightarrow> chat_result" where
  "chatSuccessResult mc p r c =
     \<lparr>reply = r, resultChat = c, chatModelUsed = name mc, chatProviderUsed = p,
      chatSuccess = True\<rparr>"

text \<open>
  The Groq branch of the loop body of \<^verbatim>\<open>chatWithFallback\<close>, after \<^verbatim>\<open>stats.attempts++\<close>;
  \<open>stats1\<close> is the statistics object of the candidate and \<open>vars\<close> holds the variables
  \<^verbatim>\<open>chat\<close> and \<^verbatim>\<open>lastError\<close>.
\<close>

definition groqChat ::
  "env \<Rightarrow> jsval \<Rightarrow> nat \<Rightarrow> ModelConfig \<Rightarrow> ModelStats \<Rightarrow> nat option \<times> js_error option \<Rightarrow> state
     \<Rightarrow> state \<times> (chat_result, nat option \<times> js_error option) flow" where
  "groqChat w msg i mc stats1 vars s1 =
     (let req = groqChatRequest mc msg;
          s2 = issue (GroqCreate req) s1
      in (case groqCreate w req of
            Resolves c \<Rightarrow> (s2, Returned (chatSuccessResult mc ''groq'' (contentOrEmpty c) None))
          | Throws e \<Rightarrow>
              (setStats (name mc) (onFailure stats1 e (nowCatch w i)) s2,
               Continued (fst vars, Some e))))"

text \<open>
  The Gemini branch. The message is sent on the chat object the variable \<^verbatim>\<open>chat\<close> refers
  to, which is the stored session itself when the variable still holds the reference the
  handler passed in. \<^verbatim>\<open>await chat.sendMessage(message)\<close> and \<^verbatim>\<open>result.response.text()\<close>
  are two steps, and either may throw: when the second does, the SDK has already appended
  its turns to the object.
\<close>

definition geminiChat ::
  "env \<Rightarrow> jsval \<Rightarrow> nat \<Rightarrow> ModelConfig \<Rightarrow> ModelStats \<Rightarrow> nat option \<times> js_error option \<Rightarrow> state
     \<Rightarrow> state \<times> (chat_result, nat option \<times> js_error option) flow" where
  "geminiChat w msg i mc stats1 vars s1 =
     (case chatFor mc (fst vars) s1 of
        ((a, c), s2) \<Rightarrow>
          (let s3 = issue (GeminiSend c msg) s2
           in (case geminiSend w c msg of
                 Throws e \<Rightarrow>
                   (setStats (name mc) (onFailure stats1 e (nowCatch w i)) s3,
                    Continued (Some a, Some e))
               | Resolves r \<Rightarrow>
                   (let s4 = appendTurns a (appended r) s3
                    in (case responseText r of
                          Resolves t \<Rightarrow>
                            (s4, Returned (chatSuccessResult mc ''gemini'' t (Some a)))
                        | Throws e \<Rightarrow>
                            (setStats (name mc) (onFailure stats1 e (nowCatch w i)) s4,
                             Continued (Some a, Some e)))))))"

text \<open>
  The body of the loop of \<^verbatim>\<open>chatWithFallback\<close>. The parameter \<^verbatim>\<open>chat\<close> is a variable
  of the function: an assignment made for one candidate is seen by the candidates after it.
\<close>

definition chatBody ::
  "env \<Rightarrow> jsval \<Rightarrow> nat \<Rightarrow> ModelConfig \<Rightarrow> nat option \<times> js_error option \<Rightarrow> state
     \<Rightarrow> state \<times> (chat_result, nat option \<times> js_error option) flow" where
  "chatBody w msg i mc vars s =
     (case modelStats s (name mc) of
        None \<Rightarrow> (s, Thrown TypeError)
      | Some stats \<Rightarrow>
          if recentlyRateLimited stats (nowCheck w i) then (s, Continued vars)
          else (let stats1 = stats\<lparr>attempts := attempts stats + 1\<rparr>;
                    s1 = setStats (name mc) stats1 s
                in if provider mc = ''groq'' then groqChat w msg i mc stats1 vars s1
                   else geminiChat w msg i mc stats1 vars s1))"

fun chatLoop ::
  "env \<Rightarrow> jsval \<Rightarrow> nat \<Rightarrow> ModelConfig list \<Rightarrow> nat option \<times> js_error option \<Rightarrow> state
     \<Rightarrow> state \<times> (exn + chat_result)" where
  "chatLoop w msg i [] vars s = (s, Inl chatExhausted)"
| "chatLoop w msg i (mc # rest) vars s =
     (case chatBody w msg i mc vars s of
        (s', Returned r) \<Rightarrow> (s', Inr r)
      | (s', Thrown e) \<Rightarrow> (s', Inl e)
      | (s', Continued vars') \<Rightarrow> chatLoop w msg (Suc i) rest vars' s')"

definition chatWithFallback ::
  "env \<Rightarrow> nat option \<Rightarrow> jsval \<Rightarrow> jsval \<Rightarrow> state \<Rightarrow> state \<times> (exn + chat_result)" where
  "chatWithFallback w ch msg sessionId s = chatLoop w msg 0 MODEL_PRIORITY (ch, None) s"


section \<open>The API routes\<close>

text \<open>
  A request as the routes see it: \<^verbatim>\<open>req.session.user_id\<close> and the parsed JSON body.
\<close>

record request =
  sessionUserId :: jsval
  body :: js_object

datatype response =
  Redirect string
| Json js_object
| ErrorPage nat string

text \<open>
  The error-handling middleware: \<^verbatim>\<open>err.statusCode || 500\<close>, with the message of an
  operational error and a fixed text for any other.
\<close>

fun errorHandler :: "exn \<Rightarrow> response" where
  "errorHandler (AppError m c) = ErrorPage (if c = 0 then 500 else c) m"
| "errorHandler TypeError = ErrorPage 500 ''Something went wrong on the server.''"

text \<open>
  A route \<^verbatim>\<open>app.post(path, requireLogin, wrapAsync(handler))\<close>: \<^verbatim>\<open>requireLogin\<close>
  redirects a request without a session user, and what the handler throws goes to the
  error handler.
\<close>

definition route ::
  "(request \<Rightarrow> state \<Rightarrow> state \<times> (exn + response)) \<Rightarrow> request \<Rightarrow> state \<Rightarrow> state \<times> response" where
  "route handler req s =
     (if \<not> truthy (sessionUserId req) then (s, Redirect ''/login'')
      else (case handler req s of
              (s', Inl e) \<Rightarrow> (s', errorHandler e)
            | (s', Inr r) \<Rightarrow> (s', r)))"

text \<open>\<^verbatim>\<open>const { message, sessionId = 'default' } = req.body\<close>: the default applies to \<^verbatim>\<open>undefined\<close> only.\<close>

definition sessionIdOf :: "js_object \<Rightarrow> jsval" where
  "sessionIdOf b = (case getProp b ''sessionId'' of JUndefined \<Rightarrow> JStr ''default'' | v \<Rightarrow> v)"

definition storeChat :: "jsval \<Rightarrow> nat option \<Rightarrow> state \<Rightarrow> state" where
  "storeChat sessionId c s =
     (case c of None \<Rightarrow> s | Some ch \<Rightarrow> s\<lparr>chatSessions := (chatSessions s)(sessionId \<mapsto> ch)\<rparr>)"

definition chatHandler :: "env \<Rightarrow> request \<Rightarrow> state \<Rightarrow> state \<times> (exn + response)" where
  "chatHandler w req s =
     (let msg = getProp (body req) ''message''; sessionId = sessionIdOf (body req)
      in if \<not> truthy msg then (s, Inl (AppError ''Message is required'' 400))
         else (case chatWithFallback w (chatSessions s sessionId) msg sessionId s of
                 (s', Inl e) \<Rightarrow> (s', Inl e)
               | (s', Inr r) \<Rightarrow>
                   (storeChat sessionId (resultChat r) s',
                    Inr (Json [(''reply'', JStr (reply r)), (''success'', JBool True),
                               (''sessionId'', sessionId), (''modelUsed'', JStr (chatModelUsed r)),
                               (''provider'', JStr (chatProviderUsed r))]))))"

definition api_chat :: "env \<Rightarrow> request \<Rightarrow> state \<Rightarrow> state \<times> response" where
  "api_chat w = route (chatHandler w)"








section \<open>Sequences of calls\<close>

datatype op =
  Generate env string js_object "image_part list option"
| Chat env "nat option" jsval jsval

fun runOp :: "op \<Rightarrow> state \<Rightarrow> state" where
  "runOp (Generate w prompt customConfig imageParts) s =
     fst (generateWithFallback w prompt customConfig imageParts s)"
| "runOp (Chat w ch msg sessionId) s = fst (chatWithFallback w ch msg sessionId s)"

definition runOps :: "op list \<Rightarrow> state \<Rightarrow> state" where
  "runOps ops s = fold runOp ops s"

fun envOf :: "op \<Rightarrow> env" where
  "envOf (Generate w prompt customConfig imageParts) = w"
| "envOf (Chat w ch msg sessionId) = w"

text \<open>The provider requests issued between two states.\<close>

definition newCalls :: "state \<Rightarrow> state \<Rightarrow> call list" where
  "newCalls s s' = drop (length (issued s)) (issued s')"

text \<open>The model a provider request is addressed to.\<close>

fun callModel :: "call \<Rightarrow> string" where
  "callModel (GroqCreate r) = model r"
| "callModel (GeminiGenerate r) = gmodel r"
| "callModel (GeminiSend c m) = modelName c"

fun isGroqCall :: "call \<Rightarrow> bool" where
  "isGroqCall (GroqCreate r) = True"
| "isGroqCall _ = False"


section \<open>Notions used in the statements\<close>

subsection \<open>One pass of a loop body, seen from outside\<close>

text \<open>The request the generate path sends for the candidate \<open>mc\<close>, and what the provider
  makes of it: the text of the answer, or the error thrown.\<close>

definition requestOf :: "ModelConfig \<Rightarrow> string \<Rightarrow> js_object \<Rightarrow> image_part list option \<Rightarrow> call" where
  "requestOf mc p cc ip =
     (if provider mc = ''groq'' then GroqCreate (groqGenerateRequest mc p cc)
      else GeminiGenerate (geminiGenerateRequest mc p cc ip))"

definition providerOutcome ::
  "env \<Rightarrow> ModelConfig \<Rightarrow> string \<Rightarrow> js_object \<Rightarrow> image_part list option \<Rightarrow> string outcome" where
  "providerOutcome w mc p cc ip =
     (if provider mc = ''groq''
      then (case groqCreate w (groqGenerateRequest mc p cc) of
              Throws e \<Rightarrow> Throws e | Resolves c \<Rightarrow> Resolves (contentOrEmpty c))
      else geminiGenerate w (geminiGenerateRequest mc p cc ip))"

text \<open>The provider name the result of the generate path carries.\<close>

definition providerLiteral :: "ModelConfig \<Rightarrow> string" where
  "providerLiteral mc = (if provider mc = ''groq'' then ''groq'' else ''gemini'')"

text \<open>The capability mismatch: a Groq candidate and a request with an image.\<close>

definition mismatched :: "ModelConfig \<Rightarrow> image_part list option \<Rightarrow> bool" where
  "mismatched mc ip = (provider mc = ''groq'' \<and> ip \<noteq> None)"

text \<open>The statistics after \<^verbatim>\<open>stats.attempts++\<close>.\<close>

definition attempted :: "ModelStats \<Rightarrow> ModelStats" where
  "attempted st = st\<lparr>attempts := Suc (attempts st)\<rparr>"

text \<open>The request the chat path sends for the candidate \<open>mc\<close> when the variable \<^verbatim>\<open>chat\<close>
  holds \<open>ch\<close> and the state is \<open>s\<close>.\<close>

definition chatCall :: "ModelConfig \<Rightarrow> nat option \<Rightarrow> jsval \<Rightarrow> state \<Rightarrow> call" where
  "chatCall mc ch msg s =
     (if provider mc = ''groq'' then GroqCreate (groqChatRequest mc msg)
      else GeminiSend (snd (fst (chatFor mc ch s))) msg)"

text \<open>The errors a provider throws at requests addressed to the model \<open>n\<close>.\<close>

definition thrownFor :: "env \<Rightarrow> string \<Rightarrow> js_error \<Rightarrow> bool" where
  "thrownFor w n e =
     ((\<exists>r. model r = n \<and> groqCreate w r = Throws e)
      \<or> (\<exists>r. gmodel r = n \<and> geminiGenerate w r = Throws e)
      \<or> (\<exists>c m. modelName c = n \<and> geminiSend w c m = Throws e)
      \<or> (\<exists>c m r. modelName c = n \<and> geminiSend w c m = Resolves r \<and> responseText r = Throws e))"

text \<open>
  What one pass of either loop body for a candidate named \<open>n\<close> may do to the shared state:
  it never writes the sessions, it issues at most one request, addressed to \<open>n\<close>, and it
  changes at most the statistics of \<open>n\<close>, by one attempt and possibly one failure.
\<close>

definition bodyEffect :: "env \<Rightarrow> string \<Rightarrow> state \<Rightarrow> state \<Rightarrow> bool" where
  "bodyEffect w n s s' =
     (chatSessions s' = chatSessions s
      \<and> (issued s' = issued s \<or> (\<exists>c. callModel c = n \<and> issued s' = issued s @ [c]))
      \<and> (modelStats s' = modelStats s
         \<or> (\<exists>st st'. modelStats s n = Some st \<and> modelStats s' = (modelStats s)(n \<mapsto> st')
              \<and> (st' = attempted st
                 \<or> (\<exists>e now. thrownFor w n e \<and> st' = onFailure (attempted st) e now)))))"


subsection \<open>Predicates of the statements\<close>

text \<open>The invariant of the statistics, for one entry and for the map.\<close>

definition statsOk :: "ModelStats \<Rightarrow> bool" where
  "statsOk st = (failures st \<le> attempts st \<and> rateLimitHits st \<le> failures st)"

definition allOk :: "state \<Rightarrow> bool" where
  "allOk s = (\<forall>n st. modelStats s n = Some st \<longrightarrow> statsOk st)"

text \<open>The providers never answer a request addressed to the model \<open>n\<close> with an error that
  the \<^verbatim>\<open>catch\<close> blocks classify as a rate limit.\<close>

definition noRateLimitFor :: "string \<Rightarrow> env \<Rightarrow> bool" where
  "noRateLimitFor n w = (\<forall>e. thrownFor w n e \<longrightarrow> \<not> isRateLimit e)"

text \<open>The model \<open>n\<close> has no rate-limit timestamp; the model \<open>n\<close> has an entry.\<close>

definition neverLimited :: "string \<Rightarrow> state \<Rightarrow> bool" where
  "neverLimited n s = (\<forall>st. modelStats s n = Some st \<longrightarrow> lastFailure st = None)"

definition hasStats :: "string \<Rightarrow> state \<Rightarrow> bool" where
  "hasStats n s = (modelStats s n \<noteq> None)"

text \<open>
  What the provider does with the request of the candidate \<open>mc\<close>, read off the provider's
  own answer: it throws, or it answers with the text \<open>t\<close>. The text of a Groq completion is
  its \<^verbatim>\<open>content\<close>, and the empty string when the completion has none.
\<close>

definition providerThrows ::
  "env \<Rightarrow> ModelConfig \<Rightarrow> string \<Rightarrow> js_object \<Rightarrow> image_part list option \<Rightarrow> bool" where
  "providerThrows w mc p cc ip =
     (if provider mc = ''groq''
      then (case groqCreate w (groqGenerateRequest mc p cc) of
              Throws e \<Rightarrow> True | Resolves c \<Rightarrow> False)
      else (case geminiGenerate w (geminiGenerateRequest mc p cc ip) of
              Throws e \<Rightarrow> True | Resolves t \<Rightarrow> False))"

definition providerAnswers ::
  "env \<Rightarrow> ModelConfig \<Rightarrow> string \<Rightarrow> js_object \<Rightarrow> image_part list option \<Rightarrow> string \<Rightarrow> bool" where
  "providerAnswers w mc p cc ip t =
     (if provider mc = ''groq''
      then (groqCreate w (groqGenerateRequest mc p cc) = Resolves (Some t)
            \<or> (groqCreate w (groqGenerateRequest mc p cc) = Resolves None \<and> t = []))
      else geminiGenerate w (geminiGenerateRequest mc p cc ip) = Resolves t)"

text \<open>
  On the generate path, seen from the state \<open>s\<close> a call starts in: the candidate \<open>mc\<close> at
  position \<open>i\<close> is in its cooldown window, or cannot take the image, or its provider throws.
\<close>

definition skippedOrFails ::
  "env \<Rightarrow> string \<Rightarrow> js_object \<Rightarrow> image_part list option \<Rightarrow> state \<Rightarrow> nat \<Rightarrow> ModelConfig \<Rightarrow> bool" where
  "skippedOrFails w p cc ip s i mc =
     (case modelStats s (name mc) of
        None \<Rightarrow> False
      | Some st \<Rightarrow>
          recentlyRateLimited st (nowCheck w i) \<or> mismatched mc ip \<or> providerThrows w mc p cc ip)"

text \<open>The candidate is neither cooling down nor mismatched, and its provider answers \<open>t\<close>.\<close>

definition succeedsWith ::
  "env \<Rightarrow> string \<Rightarrow> js_object \<Rightarrow> image_part list option \<Rightarrow> state \<Rightarrow> nat \<Rightarrow> ModelConfig \<Rightarrow> string
     \<Rightarrow> bool" where
  "succeedsWith w p cc ip s i mc t =
     (case modelStats s (name mc) of
        None \<Rightarrow> False
      | Some st \<Rightarrow>
          \<not> recentlyRateLimited st (nowCheck w i) \<and> \<not> mismatched mc ip
          \<and> providerAnswers w mc p cc ip t)"

text \<open>The statistics \<open>st'\<close> differ from \<open>st\<close> at most in \<open>attempts\<close>, which has grown by at
  most \<open>k\<close>.\<close>

definition onlyAttempts :: "nat \<Rightarrow> ModelStats \<Rightarrow> ModelStats \<Rightarrow> bool" where
  "onlyAttempts k st st' =
     (failures st' = failures st \<and> rateLimitHits st' = rateLimitHits st
      \<and> lastFailure st' = lastFailure st
      \<and> attempts st \<le> attempts st' \<and> attempts st' \<le> attempts st + k)"

text \<open>A Groq request of the chat path carries the system message and the user's message
  \<open>msg\<close>, and nothing else.\<close>

definition twoMessages :: "jsval \<Rightarrow> call \<Rightarrow> bool" where
  "twoMessages msg c =
     (case c of
        GroqCreate q \<Rightarrow>
          messages q = [\<lparr>role = ''system'', content = JStr systemMessage\<rparr>,
                        \<lparr>role = ''user'', content = msg\<rparr>]
      | GeminiGenerate q \<Rightarrow> True
      | GeminiSend ch m \<Rightarrow> True)"

text \<open>The chat object stored under a session key.\<close>

definition sessionOf :: "state \<Rightarrow> jsval \<Rightarrow> chat option" where
  "sessionOf s k = (case chatSessions s k of None \<Rightarrow> None | Some a \<Rightarrow> chatAt s a)"

text \<open>The chat object \<open>c'\<close> is \<open>c\<close> at a later time: bound to the same model, with the same
  configuration, and with the history of \<open>c\<close> as the beginning of its own.\<close>

definition grownFrom :: "chat \<Rightarrow> chat \<Rightarrow> bool" where
  "grownFrom c c' =
     (modelName c' = modelName c \<and> chatConfig c' = chatConfig c
      \<and> prefix (history c) (history c'))"

text \<open>Every chat object of \<open>xs\<close> is still there in \<open>ys\<close>, under the same reference.\<close>

definition objectsKept :: "chat list \<Rightarrow> chat list \<Rightarrow> bool" where
  "objectsKept xs ys = (length xs \<le> length ys \<and> (\<forall>a<length xs. grownFrom (xs ! a) (ys ! a)))"

text \<open>In this world a response whose \<^verbatim>\<open>text()\<close> throws has had no turns appended to the
  chat object.\<close>

definition quietBlocks :: "env \<Rightarrow> bool" where
  "quietBlocks w =
     (\<forall>c m r e. geminiSend w c m = Resolves r \<longrightarrow> responseText r = Throws e \<longrightarrow> appended r = [])"

text \<open>
  What a request of the generate path carries when the candidate \<open>mc\<close> is called with the
  overrides \<open>cc\<close>. A Gemini request carries, under every key, the override's value where
  the overrides have the key and the candidate's default where they do not. A Groq request
  carries the override's \<^verbatim>\<open>temperature\<close> and, as \<^verbatim>\<open>max_tokens\<close>, the override's
  \<^verbatim>\<open>maxOutputTokens\<close> where these are truthy, and the candidate's \<^verbatim>\<open>temperature\<close> and
  \<^verbatim>\<open>max_tokens\<close> where the overrides do not have them.
\<close>

definition overridesApplied :: "ModelConfig \<Rightarrow> js_object \<Rightarrow> call \<Rightarrow> bool" where
  "overridesApplied mc cc c =
     (case c of
        GeminiGenerate q \<Rightarrow>
          (\<forall>k. getProp (generationConfig q) k
                 = (case map_of cc k of Some v \<Rightarrow> v | None \<Rightarrow> getProp (config mc) k))
      | GroqCreate q \<Rightarrow>
          (truthy (getProp cc ''temperature'') \<longrightarrow> temperature q = getProp cc ''temperature'')
          \<and> (map_of cc ''temperature'' = None
               \<longrightarrow> temperature q = getProp (config mc) ''temperature'')
          \<and> (truthy (getProp cc ''maxOutputTokens'')
               \<longrightarrow> max_tokens q = getProp cc ''maxOutputTokens'')
          \<and> (map_of cc ''maxOutputTokens'' = None
               \<longrightarrow> max_tokens q = getProp (config mc) ''max_tokens'')
      | GeminiSend ch m \<Rightarrow> False)"

text \<open>Every request of the list is addressed to a candidate of \<open>mcs\<close> and carries what the
  overrides make of that candidate's configuration.\<close>

definition requestsFollowOverrides :: "ModelConfig list \<Rightarrow> js_object \<Rightarrow> call list \<Rightarrow> bool" where
  "requestsFollowOverrides mcs cc cs =
     list_all (\<lambda>c. \<exists>mc\<in>set mcs. callModel c = name mc \<and> overridesApplied mc cc c) cs"


subsection \<open>Worlds, states and requests of the examples\<close>

text \<open>A world in which every provider request throws an error with the message \<open>m\<close>
  and the clock always reads \<open>t\<close>.\<close>

definition failingEnv :: "string \<Rightarrow> int \<Rightarrow> env" where
  "failingEnv m t =
     \<lparr>groqCreate = (\<lambda>r. Throws (JsError (Some m))),
      geminiGenerate = (\<lambda>r. Throws (JsError (Some m))),
      geminiSend = (\<lambda>c msg. Throws (JsError (Some m))),
      nowCheck = (\<lambda>i. t), nowCatch = (\<lambda>i. t)\<rparr>"

text \<open>A world in which \<^verbatim>\<open>gemini-2.5-flash\<close> throws an error that is no rate limit and every
  other model answers.\<close>

definition flashDownEnv :: env where
  "flashDownEnv =
     \<lparr>groqCreate = (\<lambda>r. Resolves (Some ''groq answer'')),
      geminiGenerate = (\<lambda>r. if gmodel r = ''gemini-2.5-flash''
                            then Throws (JsError (Some ''boom'')) else Resolves ''answer''),
      geminiSend = (\<lambda>c m. if modelName c = ''gemini-2.5-flash''
                           then Throws (JsError (Some ''boom''))
                           else Resolves \<lparr>appended = [(''user'', m), (''model'', JStr ''reply'')],
                                          responseText = Resolves ''reply''\<rparr>),
      nowCheck = (\<lambda>i. 1000), nowCatch = (\<lambda>i. 1000)\<rparr>"

text \<open>A world in which every Gemini request throws an error that is no rate limit and
  Groq answers.\<close>

definition geminiDownEnv :: env where
  "geminiDownEnv =
     \<lparr>groqCreate = (\<lambda>r. Resolves (Some ''groq answer'')),
      geminiGenerate = (\<lambda>r. Throws (JsError (Some ''boom''))),
      geminiSend = (\<lambda>c m. Throws (JsError (Some ''boom''))),
      nowCheck = (\<lambda>i. 1000), nowCatch = (\<lambda>i. 1000)\<rparr>"

text \<open>
  A world in which every Gemini chat answers with a response that is blocked for safety:
  \<^verbatim>\<open>sendMessage\<close> resolves, the SDK appends the two turns, and \<^verbatim>\<open>text()\<close> throws. Groq answers.
\<close>

definition blockedEnv :: env where
  "blockedEnv =
     \<lparr>groqCreate = (\<lambda>r. Resolves (Some ''groq answer'')),
      geminiGenerate = (\<lambda>r. Throws (JsError (Some ''boom''))),
      geminiSend = (\<lambda>c m. Resolves \<lparr>appended = [(''user'', m), (''model'', JStr [])],
                                     responseText = Throws (JsError (Some ''blocked: SAFETY''))\<rparr>),
      nowCheck = (\<lambda>i. 1000), nowCatch = (\<lambda>i. 1000)\<rparr>"

text \<open>A state with a session of \<^verbatim>\<open>gemini-2.5-flash\<close>, one exchange long, stored under the key
  \<^verbatim>\<open>default\<close>.\<close>

definition storedChat :: chat where
  "storedChat =
     \<lparr>modelName = ''gemini-2.5-flash'', chatConfig = geminiConfig 8000,
      history = initialHistory @ [(''user'', JStr ''hello''), (''model'', JStr ''hi there'')]\<rparr>"

definition sessionState :: state where
  "sessionState =
     initialState\<lparr>chatObjects := [storedChat], chatSessions := [JStr ''default'' \<mapsto> 0]\<rparr>"

text \<open>The state after one generate call in which every provider answered with a rate-limit
  error while the clock read 1000.\<close>

definition rateLimitedState :: state where
  "rateLimitedState =
     runOps [Generate (failingEnv ''429 Too Many Requests'' 1000) ''p'' [] None] initialState"

text \<open>A request of a logged-in user with the body \<open>b\<close>, and a request without a session user
  and without a body.\<close>

definition loggedIn :: "js_object \<Rightarrow> request" where
  "loggedIn b = \<lparr>sessionUserId = JStr ''u1'', body = b\<rparr>"



section \<open>Properties\<close>

subsection \<open>Reading the state\<close>

lemma modelStats_issue [simp]: "modelStats (issue c s) = modelStats s"
  by (simp add: issue_def)

lemma modelStats_setStats [simp]: "modelStats (setStats n st s) = (modelStats s)(n \<mapsto> st)"
  by (simp add: setStats_def)

lemma chatSessions_issue [simp]: "chatSessions (issue c s) = chatSessions s"
  by (simp add: issue_def)

lemma chatSessions_setStats [simp]: "chatSessions (setStats n st s) = chatSessions s"
  by (simp add: setStats_def)

lemma issued_issue [simp]: "issued (issue c s) = issued s @ [c]"
  by (simp add: issue_def)

lemma issued_setStats [simp]: "issued (setStats n st s) = issued s"
  by (simp add: setStats_def)

lemma chatObjects_issue [simp]: "chatObjects (issue c s) = chatObjects s"
  by (simp add: issue_def)

lemma chatObjects_setStats [simp]: "chatObjects (setStats n st s) = chatObjects s"
  by (simp add: setStats_def)

lemma chatAt_issue [simp]: "chatAt (issue c s) a = chatAt s a"
  by (simp add: chatAt_def)

lemma chatAt_setStats [simp]: "chatAt (setStats n st s) a = chatAt s a"
  by (simp add: chatAt_def)

lemma modelStats_appendTurns [simp]: "modelStats (appendTurns a ts s) = modelStats s"
  by (simp add: appendTurns_def split: option.splits)

lemma chatSessions_appendTurns [simp]: "chatSessions (appendTurns a ts s) = chatSessions s"
  by (simp add: appendTurns_def split: option.splits)

lemma issued_appendTurns [simp]: "issued (appendTurns a ts s) = issued s"
  by (simp add: appendTurns_def split: option.splits)

lemma appendTurns_none [simp]: "appendTurns a [] s = s"
  by (auto simp: appendTurns_def chatAt_def split: option.splits if_splits)

subsection \<open>Running the program on a given input\<close>

text \<open>The definitions to unfold when a call is evaluated on a concrete state in a concrete
  world; the priming texts stay folded.\<close>

lemmas eval_defs =
  runOps_def generateWithFallback_def chatWithFallback_def
  generateBody_def chatBody_def groqChat_def geminiChat_def chatFor_def startChatFor_def
  chatAt_def appendTurns_def startChat_def setStats_def issue_def onFailure_def
  recentlyRateLimited_def Let_def MODEL_PRIORITY_def geminiModel_def initialState_def
  initialModelStats_def freshStats_def chatSuccessResult_def genSuccess_def contentOrEmpty_def
  groqChatRequest_def groqGenerateRequest_def geminiGenerateRequest_def
  generateExhausted_def lastErrorMessage_def chatExhausted_def
  api_chat_def route_def chatHandler_def storeChat_def sessionIdOf_def getProp_def
  sessionOf_def newCalls_def js_or_def

lemma boom_not_rate_limit: "\<not> isRateLimit (JsError (Some ''boom''))"
  by code_simp

lemma blocked_not_rate_limit: "\<not> isRateLimit (JsError (Some ''blocked: SAFETY''))"
  by code_simp

lemma status_429_rate_limit: "isRateLimit (JsError (Some ''429 Too Many Requests''))"
  by code_simp

subsection \<open>From the body to the loop\<close>

text \<open>A property of the state that every pass of a loop body keeps is kept by the loop.\<close>

lemma generateLoop_preserves:
  assumes body: "\<And>i mc le s. mc \<in> set mcs \<Longrightarrow> P s \<Longrightarrow> P (fst (generateBody w p cc ip i mc le s))"
    and start: "P s"
  shows "P (fst (generateLoop w p cc ip i mcs le s))"
  using assms
proof (induction mcs arbitrary: i le s)
  case Nil
  then show ?case by simp
next
  case (Cons mc rest)
  obtain s' f where b: "generateBody w p cc ip i mc le s = (s', f)"
    by (cases "generateBody w p cc ip i mc le s")
  have P': "P s'"
    using Cons.prems(1)[of mc s i le] Cons.prems(2) b by simp
  show ?case
  proof (cases f)
    case (Continued le')
    have "P (fst (generateLoop w p cc ip (Suc i) rest le' s'))"
      by (rule Cons.IH) (use Cons.prems(1) P' in auto)
    then show ?thesis using b Continued by simp
  qed (use b P' in simp_all)
qed

lemma chatLoop_preserves:
  assumes body: "\<And>i mc vars s. mc \<in> set mcs \<Longrightarrow> P s \<Longrightarrow> P (fst (chatBody w msg i mc vars s))"
    and start: "P s"
  shows "P (fst (chatLoop w msg i mcs vars s))"
  using assms
proof (induction mcs arbitrary: i vars s)
  case Nil
  then show ?case by simp
next
  case (Cons mc rest)
  obtain s' f where b: "chatBody w msg i mc vars s = (s', f)"
    by (cases "chatBody w msg i mc vars s")
  have P': "P s'"
    using Cons.prems(1)[of mc s i vars] Cons.prems(2) b by simp
  show ?case
  proof (cases f)
    case (Continued vars')
    have "P (fst (chatLoop w msg (Suc i) rest vars' s'))"
      by (rule Cons.IH) (use Cons.prems(1) P' in auto)
    then show ?thesis using b Continued by simp
  qed (use b P' in simp_all)
qed

subsection \<open>The passes of the loop bodies, case by case\<close>

lemma recentlyRateLimited_attempts [simp]:
  "recentlyRateLimited (st\<lparr>attempts := a\<rparr>) now = recentlyRateLimited st now"
  by (simp add: recentlyRateLimited_def)

lemma generateBody_missing:
  "modelStats s (name mc) = None \<Longrightarrow> generateBody w p cc ip i mc le s = (s, Thrown TypeError)"
  by (simp add: generateBody_def)

lemma generateBody_skip:
  "modelStats s (name mc) = Some st
   \<Longrightarrow> recentlyRateLimited st (nowCheck w i) \<or> mismatched mc ip
   \<Longrightarrow> generateBody w p cc ip i mc le s = (setStats (name mc) (attempted st) s, Continued le)"
  by (auto simp: generateBody_def Let_def mismatched_def attempted_def)

lemma generateBody_ok:
  "modelStats s (name mc) = Some st
   \<Longrightarrow> \<not> recentlyRateLimited st (nowCheck w i) \<Longrightarrow> \<not> mismatched mc ip
   \<Longrightarrow> providerOutcome w mc p cc ip = Resolves t
   \<Longrightarrow> generateBody w p cc ip i mc le s
        = (issue (requestOf mc p cc ip) (setStats (name mc) (attempted st) s),
           Returned (genSuccess mc (providerLiteral mc) t))"
  by (cases "provider mc = ''groq''")
     (simp_all add: generateBody_def Let_def mismatched_def attempted_def providerOutcome_def
        requestOf_def providerLiteral_def split: outcome.splits)

lemma generateBody_fail:
  "modelStats s (name mc) = Some st
   \<Longrightarrow> \<not> recentlyRateLimited st (nowCheck w i) \<Longrightarrow> \<not> mismatched mc ip
   \<Longrightarrow> providerOutcome w mc p cc ip = Throws e
   \<Longrightarrow> generateBody w p cc ip i mc le s
        = (setStats (name mc) (onFailure (attempted st) e (nowCatch w i))
             (issue (requestOf mc p cc ip) (setStats (name mc) (attempted st) s)),
           Continued (Some e))"
  by (cases "provider mc = ''groq''")
     (simp_all add: generateBody_def Let_def mismatched_def attempted_def providerOutcome_def
        requestOf_def split: outcome.splits)

lemma callModel_requestOf [simp]: "callModel (requestOf mc p cc ip) = name mc"
  by (simp add: requestOf_def groqGenerateRequest_def geminiGenerateRequest_def)

lemma providerOutcome_thrown:
  "providerOutcome w mc p cc ip = Throws e \<Longrightarrow> thrownFor w (name mc) e"
proof (cases "provider mc = ''groq''")
  case True
  assume "providerOutcome w mc p cc ip = Throws e"
  then have "groqCreate w (groqGenerateRequest mc p cc) = Throws e"
    using True by (simp add: providerOutcome_def split: outcome.splits)
  moreover have "model (groqGenerateRequest mc p cc) = name mc"
    by (simp add: groqGenerateRequest_def)
  ultimately show ?thesis unfolding thrownFor_def by blast
next
  case False
  assume "providerOutcome w mc p cc ip = Throws e"
  then have "geminiGenerate w (geminiGenerateRequest mc p cc ip) = Throws e"
    using False by (simp add: providerOutcome_def)
  moreover have "gmodel (geminiGenerateRequest mc p cc ip) = name mc"
    by (simp add: geminiGenerateRequest_def)
  ultimately show ?thesis unfolding thrownFor_def by blast
qed

lemma generateBody_effect: "bodyEffect w (name mc) s (fst (generateBody w p cc ip i mc le s))"
proof (cases "modelStats s (name mc)")
  case None
  then show ?thesis by (simp add: generateBody_missing bodyEffect_def)
next
  case (Some st)
  show ?thesis
  proof (cases "recentlyRateLimited st (nowCheck w i) \<or> mismatched mc ip")
    case True
    show ?thesis
      unfolding generateBody_skip[OF Some True] bodyEffect_def using Some by auto
  next
    case False
    then have nc: "\<not> recentlyRateLimited st (nowCheck w i)" and nm: "\<not> mismatched mc ip" by auto
    show ?thesis
    proof (cases "providerOutcome w mc p cc ip")
      case (Resolves t)
      show ?thesis
        unfolding generateBody_ok[OF Some nc nm Resolves] bodyEffect_def using Some by auto
    next
      case (Throws e)
      have "thrownFor w (name mc) e" by (rule providerOutcome_thrown[OF Throws])
      then show ?thesis
        unfolding generateBody_fail[OF Some nc nm Throws] bodyEffect_def using Some by auto
    qed
  qed
qed

lemma chatBody_missing:
  "modelStats s (name mc) = None \<Longrightarrow> chatBody w msg i mc vars s = (s, Thrown TypeError)"
  by (simp add: chatBody_def)

lemma chatBody_cool:
  "modelStats s (name mc) = Some st \<Longrightarrow> recentlyRateLimited st (nowCheck w i)
   \<Longrightarrow> chatBody w msg i mc vars s = (s, Continued vars)"
  by (simp add: chatBody_def)

text \<open>The chat object a Gemini pass sends on.\<close>

lemma startChatFor_facts:
  assumes "startChatFor mc s = ((a, c), s2)"
  shows "modelName c = name mc \<and> modelStats s2 = modelStats s
      \<and> chatSessions s2 = chatSessions s \<and> issued s2 = issued s
      \<and> chatAt s2 a = Some c \<and> prefix (chatObjects s) (chatObjects s2)"
proof -
  have a: "a = length (chatObjects s)" and c: "c = startChat mc"
    and s2: "s2 = s\<lparr>chatObjects := chatObjects s @ [startChat mc]\<rparr>"
    using assms by (auto simp: startChatFor_def)
  show ?thesis unfolding a c s2 by (simp add: startChat_def chatAt_def)
qed

lemma chatFor_all:
  assumes "chatFor mc ch s = ((a, c), s2)"
  shows "modelName c = name mc \<and> modelStats s2 = modelStats s
      \<and> chatSessions s2 = chatSessions s \<and> issued s2 = issued s
      \<and> chatAt s2 a = Some c \<and> prefix (chatObjects s) (chatObjects s2)"
proof (cases ch)
  case None
  then have "startChatFor mc s = ((a, c), s2)" using assms by (simp add: chatFor_def)
  then show ?thesis by (rule startChatFor_facts)
next
  case (Some a0)
  show ?thesis
  proof (cases "chatAt s a0")
    case None
    then have "startChatFor mc s = ((a, c), s2)" using assms Some by (simp add: chatFor_def)
    then show ?thesis by (rule startChatFor_facts)
  next
    case c0: (Some c0)
    show ?thesis
    proof (cases "modelName c0 \<noteq> name mc")
      case True
      then have "startChatFor mc s = ((a, c), s2)"
        using assms Some c0 by (simp add: chatFor_def)
      then show ?thesis by (rule startChatFor_facts)
    next
      case False
      then have "a = a0" "c = c0" "s2 = s"
        using assms Some c0 by (simp_all add: chatFor_def)
      then show ?thesis using c0 False by simp
    qed
  qed
qed

lemma chatFor_facts:
  assumes "chatFor mc ch s = ((a, c), s2)"
  shows "modelName c = name mc" and "modelStats s2 = modelStats s"
    and "chatSessions s2 = chatSessions s" and "issued s2 = issued s"
    and "chatAt s2 a = Some c" and "prefix (chatObjects s) (chatObjects s2)"
  using chatFor_all[OF assms] by simp_all

lemma chatFor_setStats:
  "chatFor mc ch (setStats n st s) = (fst (chatFor mc ch s), setStats n st (snd (chatFor mc ch s)))"
  by (simp add: chatFor_def startChatFor_def setStats_def chatAt_def split: option.splits)

text \<open>The five ways a pass of the chat loop ends for a candidate outside its cooldown
  window.\<close>

lemma chatPass_cases [consumes 2, case_names groq_ok groq_fail gemini_throw gemini_blocked gemini_ok]:
  assumes st: "modelStats s (name mc) = Some st"
    and nc: "\<not> recentlyRateLimited st (nowCheck w i)"
  obtains
    (groq_ok) c where "provider mc = ''groq''"
      "groqCreate w (groqChatRequest mc msg) = Resolves c"
      "chatBody w msg i mc vars s
         = (issue (GroqCreate (groqChatRequest mc msg)) (setStats (name mc) (attempted st) s),
            Returned (chatSuccessResult mc ''groq'' (contentOrEmpty c) None))"
  | (groq_fail) e where "provider mc = ''groq''"
      "groqCreate w (groqChatRequest mc msg) = Throws e"
      "chatBody w msg i mc vars s
         = (setStats (name mc) (onFailure (attempted st) e (nowCatch w i))
              (issue (GroqCreate (groqChatRequest mc msg)) (setStats (name mc) (attempted st) s)),
            Continued (fst vars, Some e))"
  | (gemini_throw) a c s2 e where "provider mc \<noteq> ''groq''"
      "chatFor mc (fst vars) s = ((a, c), s2)"
      "geminiSend w c msg = Throws e"
      "chatBody w msg i mc vars s
         = (setStats (name mc) (onFailure (attempted st) e (nowCatch w i))
              (issue (GeminiSend c msg) (setStats (name mc) (attempted st) s2)),
            Continued (Some a, Some e))"
  | (gemini_blocked) a c s2 r e where "provider mc \<noteq> ''groq''"
      "chatFor mc (fst vars) s = ((a, c), s2)"
      "geminiSend w c msg = Resolves r" "responseText r = Throws e"
      "chatBody w msg i mc vars s
         = (setStats (name mc) (onFailure (attempted st) e (nowCatch w i))
              (appendTurns a (appended r)
                 (issue (GeminiSend c msg) (setStats (name mc) (attempted st) s2))),
            Continued (Some a, Some e))"
  | (gemini_ok) a c s2 r t where "provider mc \<noteq> ''groq''"
      "chatFor mc (fst vars) s = ((a, c), s2)"
      "geminiSend w c msg = Resolves r" "responseText r = Resolves t"
      "chatBody w msg i mc vars s
         = (appendTurns a (appended r)
              (issue (GeminiSend c msg) (setStats (name mc) (attempted st) s2)),
            Returned (chatSuccessResult mc ''gemini'' t (Some a)))"
proof (cases "provider mc = ''groq''")
  case True
  have b: "chatBody w msg i mc vars s
             = groqChat w msg i mc (attempted st) vars (setStats (name mc) (attempted st) s)"
    using st nc True by (simp add: chatBody_def Let_def attempted_def)
  show ?thesis
  proof (cases "groqCreate w (groqChatRequest mc msg)")
    case (Resolves c)
    show ?thesis
      by (rule groq_ok[OF True Resolves]) (simp add: b groqChat_def Let_def Resolves)
  next
    case (Throws e)
    show ?thesis
      by (rule groq_fail[OF True Throws]) (simp add: b groqChat_def Let_def Throws)
  qed
next
  case False
  have b: "chatBody w msg i mc vars s
             = geminiChat w msg i mc (attempted st) vars (setStats (name mc) (attempted st) s)"
    using st nc False by (simp add: chatBody_def Let_def attempted_def)
  obtain a c s2 where cf: "chatFor mc (fst vars) s = ((a, c), s2)"
    by (metis prod.exhaust)
  have cf': "chatFor mc (fst vars) (setStats (name mc) (attempted st) s)
               = ((a, c), setStats (name mc) (attempted st) s2)"
    by (simp add: chatFor_setStats cf)
  show ?thesis
  proof (cases "geminiSend w c msg")
    case (Throws e)
    show ?thesis
      by (rule gemini_throw[OF False cf Throws]) (simp add: b geminiChat_def Let_def cf' Throws)
  next
    case (Resolves r)
    show ?thesis
    proof (cases "responseText r")
      case t: (Throws e)
      show ?thesis
        by (rule gemini_blocked[OF False cf Resolves t])
           (simp add: b geminiChat_def Let_def cf' Resolves t)
    next
      case t: (Resolves t)
      show ?thesis
        by (rule gemini_ok[OF False cf Resolves t])
           (simp add: b geminiChat_def Let_def cf' Resolves t)
    qed
  qed
qed

lemma callModel_chatCall [simp]: "callModel (chatCall mc ch msg s) = name mc"
proof (cases "chatFor mc ch s")
  case (Pair ac s2)
  then show ?thesis
    using chatFor_facts(1)[of mc ch s "fst ac" "snd ac" s2]
    by (simp add: chatCall_def groqChatRequest_def)
qed

lemma chatCall_groq: "provider mc = ''groq'' \<Longrightarrow> chatCall mc ch msg s = GroqCreate (groqChatRequest mc msg)"
  by (simp add: chatCall_def)

lemma chatCall_gemini:
  "provider mc \<noteq> ''groq'' \<Longrightarrow> chatFor mc ch s = ((a, c), s2) \<Longrightarrow> chatCall mc ch msg s = GeminiSend c msg"
  by (simp add: chatCall_def)

text \<open>A pass outside the cooldown window issues the request of the candidate.\<close>

lemma chatBody_issues:
  assumes "modelStats s (name mc) = Some st" and "\<not> recentlyRateLimited st (nowCheck w i)"
  shows "issued (fst (chatBody w msg i mc vars s)) = issued s @ [chatCall mc (fst vars) msg s]"
  using assms
proof (cases rule: chatPass_cases[where msg = msg and vars = vars])
  case (groq_ok c)
  then show ?thesis by (simp add: chatCall_groq)
next
  case (groq_fail e)
  then show ?thesis by (simp add: chatCall_groq)
next
  case (gemini_throw a c s2 e)
  then show ?thesis by (simp add: chatCall_gemini chatFor_facts(4))
next
  case (gemini_blocked a c s2 r e)
  then show ?thesis by (simp add: chatCall_gemini chatFor_facts(4))
next
  case (gemini_ok a c s2 r t)
  then show ?thesis by (simp add: chatCall_gemini chatFor_facts(4))
qed

lemma chatBody_effect: "bodyEffect w (name mc) s (fst (chatBody w msg i mc vars s))"
proof (cases "modelStats s (name mc)")
  case None
  then show ?thesis by (simp add: chatBody_missing bodyEffect_def)
next
  case (Some st)
  show ?thesis
  proof (cases "recentlyRateLimited st (nowCheck w i)")
    case True
    show ?thesis
      unfolding chatBody_cool[OF Some True] bodyEffect_def by simp
  next
    case nc: False
    have iss: "\<exists>c. callModel c = name mc
                 \<and> issued (fst (chatBody w msg i mc vars s)) = issued s @ [c]"
      using chatBody_issues[OF Some nc] callModel_chatCall by blast
    have sess: "chatSessions (fst (chatBody w msg i mc vars s)) = chatSessions s"
      and stats: "modelStats (fst (chatBody w msg i mc vars s)) = (modelStats s)(name mc \<mapsto> attempted st)
          \<or> (\<exists>e now. thrownFor w (name mc) e
                \<and> modelStats (fst (chatBody w msg i mc vars s))
                    = (modelStats s)(name mc \<mapsto> onFailure (attempted st) e now))"
      using Some nc
    proof (atomize (full), cases rule: chatPass_cases[where msg = msg and vars = vars])
      case (groq_ok c)
      then show "chatSessions (fst (chatBody w msg i mc vars s)) = chatSessions s \<and>
        (modelStats (fst (chatBody w msg i mc vars s)) = (modelStats s)(name mc \<mapsto> attempted st)
          \<or> (\<exists>e now. thrownFor w (name mc) e
                \<and> modelStats (fst (chatBody w msg i mc vars s))
                    = (modelStats s)(name mc \<mapsto> onFailure (attempted st) e now)))"
        by simp
    next
      case (groq_fail e)
      have "thrownFor w (name mc) e"
        unfolding thrownFor_def using groq_fail(2)
        by (intro disjI1 exI[of _ "groqChatRequest mc msg"]) (simp add: groqChatRequest_def)
      then show "chatSessions (fst (chatBody w msg i mc vars s)) = chatSessions s \<and>
        (modelStats (fst (chatBody w msg i mc vars s)) = (modelStats s)(name mc \<mapsto> attempted st)
          \<or> (\<exists>e now. thrownFor w (name mc) e
                \<and> modelStats (fst (chatBody w msg i mc vars s))
                    = (modelStats s)(name mc \<mapsto> onFailure (attempted st) e now)))"
        using groq_fail(3) by auto
    next
      case (gemini_throw a c s2 e)
      note f = chatFor_facts[OF gemini_throw(2)]
      have "thrownFor w (name mc) e"
        unfolding thrownFor_def using gemini_throw(3) f(1) by blast
      then show "chatSessions (fst (chatBody w msg i mc vars s)) = chatSessions s \<and>
        (modelStats (fst (chatBody w msg i mc vars s)) = (modelStats s)(name mc \<mapsto> attempted st)
          \<or> (\<exists>e now. thrownFor w (name mc) e
                \<and> modelStats (fst (chatBody w msg i mc vars s))
                    = (modelStats s)(name mc \<mapsto> onFailure (attempted st) e now)))"
        using gemini_throw(4) f(2,3) by auto
    next
      case (gemini_blocked a c s2 r e)
      note f = chatFor_facts[OF gemini_blocked(2)]
      have "thrownFor w (name mc) e"
        unfolding thrownFor_def using gemini_blocked(3,4) f(1) by blast
      then show "chatSessions (fst (chatBody w msg i mc vars s)) = chatSessions s \<and>
        (modelStats (fst (chatBody w msg i mc vars s)) = (modelStats s)(name mc \<mapsto> attempted st)
          \<or> (\<exists>e now. thrownFor w (name mc) e
                \<and> modelStats (fst (chatBody w msg i mc vars s))
                    = (modelStats s)(name mc \<mapsto> onFailure (attempted st) e now)))"
        using gemini_blocked(5) f(2,3) by auto
    next
      case (gemini_ok a c s2 r t)
      note f = chatFor_facts[OF gemini_ok(2)]
      show "chatSessions (fst (chatBody w msg i mc vars s)) = chatSessions s \<and>
        (modelStats (fst (chatBody w msg i mc vars s)) = (modelStats s)(name mc \<mapsto> attempted st)
          \<or> (\<exists>e now. thrownFor w (name mc) e
                \<and> modelStats (fst (chatBody w msg i mc vars s))
                    = (modelStats s)(name mc \<mapsto> onFailure (attempted st) e now)))"
        using gemini_ok(5) f(2,3) by simp
    qed
    show ?thesis
      unfolding bodyEffect_def using iss sess stats Some by blast
  qed
qed

subsection \<open>The invariant of the statistics\<close>

lemma attempted_ok: "statsOk st \<Longrightarrow> statsOk (attempted st)"
  by (simp add: statsOk_def attempted_def)

lemma failed_ok: "statsOk st \<Longrightarrow> statsOk (onFailure (attempted st) e now)"
  by (simp add: statsOk_def attempted_def onFailure_def Let_def)

lemma bodyEffect_allOk:
  assumes "bodyEffect w n s s'" and "allOk s"
  shows "allOk s'"
proof -
  from assms(1) consider "modelStats s' = modelStats s"
    | st st' where "modelStats s n = Some st" "modelStats s' = (modelStats s)(n \<mapsto> st')"
        "st' = attempted st \<or> (\<exists>e now. st' = onFailure (attempted st) e now)"
    unfolding bodyEffect_def by blast
  then show ?thesis
  proof cases
    case 1
    then show ?thesis using assms(2) by (simp add: allOk_def)
  next
    case 2
    have "statsOk st" using assms(2) 2(1) by (simp add: allOk_def)
    then have "statsOk st'" using 2(3) attempted_ok failed_ok by blast
    then show ?thesis using assms(2) 2(2) by (simp add: allOk_def)
  qed
qed

lemma runOp_allOk: "allOk s \<Longrightarrow> allOk (runOp op s)"
proof (cases op)
  case (Generate w p cc ip)
  assume "allOk s"
  then have "allOk (fst (generateLoop w p cc ip 0 MODEL_PRIORITY None s))"
    by (rule generateLoop_preserves[where P = allOk, rotated])
       (rule bodyEffect_allOk[OF generateBody_effect])
  then show ?thesis using Generate by (simp add: generateWithFallback_def)
next
  case (Chat w ch msg sid)
  assume "allOk s"
  then have "allOk (fst (chatLoop w msg 0 MODEL_PRIORITY (ch, None) s))"
    by (rule chatLoop_preserves[where P = allOk, rotated])
       (rule bodyEffect_allOk[OF chatBody_effect])
  then show ?thesis using Chat by (simp add: chatWithFallback_def)
qed

lemma runOps_allOk: "allOk s \<Longrightarrow> allOk (runOps ops s)"
  unfolding runOps_def by (induction ops arbitrary: s) (simp_all add: runOp_allOk)

lemma initialModelStats_cases:
  "initialModelStats n = Some st \<Longrightarrow> st = freshStats"
  by (simp add: initialModelStats_def MODEL_PRIORITY_def geminiModel_def split: if_splits)

lemma allOk_initial: "allOk initialState"
  by (auto simp: allOk_def initialState_def statsOk_def freshStats_def dest!: initialModelStats_cases)

text \<open>
  C4. After any sequence of calls of \<^verbatim>\<open>generateWithFallback\<close> and \<^verbatim>\<open>chatWithFallback\<close>
  from the state the module starts in, whatever the providers answer and whatever the
  clock reads, every entry of \<^verbatim>\<open>modelStats\<close> has \<open>failures \<le> attempts\<close> and
  \<open>rateLimitHits \<le> failures\<close>.
\<close>

theorem stats_invariant:
  "\<forall>n st. modelStats (runOps ops initialState) n = Some st
      \<longrightarrow> failures st \<le> attempts st \<and> rateLimitHits st \<le> failures st"
  using runOps_allOk[OF allOk_initial, of ops] by (simp add: allOk_def statsOk_def)

theorem stats_invariant_witness:
  "modelStats (runOps [Generate (failingEnv ''429 Too Many Requests'' 1000) ''p'' [] None,
                       Chat (failingEnv ''boom'' 100000) None (JStr ''hi'') (JStr ''default'')]
                 initialState) ''gemini-2.5-flash''
     = Some \<lparr>attempts = 2, failures = 2, lastFailure = Some 1000, rateLimitHits = 1\<rparr>
   \<and> failures \<lparr>attempts = 2, failures = 2, lastFailure = Some 1000, rateLimitHits = 1\<rparr>
       \<le> attempts \<lparr>attempts = 2, failures = 2, lastFailure = Some 1000, rateLimitHits = 1\<rparr>
   \<and> rateLimitHits \<lparr>attempts = 2, failures = 2, lastFailure = Some 1000, rateLimitHits = 1\<rparr>
       \<le> failures \<lparr>attempts = 2, failures = 2, lastFailure = Some 1000, rateLimitHits = 1\<rparr>"
proof -
  have h: "modelStats (runOps [Generate (failingEnv ''429 Too Many Requests'' 1000) ''p'' [] None,
                       Chat (failingEnv ''boom'' 100000) None (JStr ''hi'') (JStr ''default'')]
                 initialState) ''gemini-2.5-flash''
     = Some \<lparr>attempts = 2, failures = 2, lastFailure = Some 1000, rateLimitHits = 1\<rparr>"
    by (simp add: eval_defs failingEnv_def status_429_rate_limit boom_not_rate_limit)
  from stats_invariant[rule_format, OF h] h show ?thesis by blast
qed

subsection \<open>Cooldown only after a rate limit\<close>

lemma lastFailure_attempted [simp]: "lastFailure (attempted st) = lastFailure st"
  by (simp add: attempted_def)

lemma lastFailure_onFailure:
  "\<not> isRateLimit e \<Longrightarrow> lastFailure (onFailure st e now) = lastFailure st"
  by (simp add: onFailure_def Let_def)

lemma bodyEffect_neverLimited:
  assumes eff: "bodyEffect w m s s'" and nrl: "noRateLimitFor n w" and inv: "neverLimited n s"
  shows "neverLimited n s'"
proof -
  from eff consider "modelStats s' = modelStats s"
    | st st' where "modelStats s m = Some st" "modelStats s' = (modelStats s)(m \<mapsto> st')"
        "st' = attempted st \<or> (\<exists>e now. thrownFor w m e \<and> st' = onFailure (attempted st) e now)"
    unfolding bodyEffect_def by blast
  then show ?thesis
  proof cases
    case 1
    then show ?thesis using inv by (simp add: neverLimited_def)
  next
    case 2
    show ?thesis
    proof (cases "m = n")
      case False
      then show ?thesis using inv 2(2) by (simp add: neverLimited_def)
    next
      case True
      have "lastFailure st = None" using inv 2(1) True by (simp add: neverLimited_def)
      moreover have "lastFailure st' = lastFailure st"
        using 2(3) nrl True by (auto simp: noRateLimitFor_def lastFailure_onFailure)
      ultimately show ?thesis using 2(2) True by (simp add: neverLimited_def)
    qed
  qed
qed

lemma bodyEffect_hasStats:
  assumes eff: "bodyEffect w m s s'" and inv: "hasStats n s"
  shows "hasStats n s'"
proof -
  from eff consider "modelStats s' = modelStats s"
    | st' where "modelStats s' = (modelStats s)(m \<mapsto> st')"
    unfolding bodyEffect_def by blast
  then show ?thesis using inv by cases (simp_all add: hasStats_def)
qed

lemma runOp_neverLimited:
  assumes nrl: "noRateLimitFor n (envOf op)" and inv: "neverLimited n s"
  shows "neverLimited n (runOp op s)"
proof (cases op)
  case (Generate w p cc ip)
  have "neverLimited n (fst (generateLoop w p cc ip 0 MODEL_PRIORITY None s))"
    using inv
    by (rule generateLoop_preserves[where P = "neverLimited n", rotated])
       (rule bodyEffect_neverLimited[OF generateBody_effect], use nrl Generate in simp_all)
  then show ?thesis using Generate by (simp add: generateWithFallback_def)
next
  case (Chat w ch msg sid)
  have "neverLimited n (fst (chatLoop w msg 0 MODEL_PRIORITY (ch, None) s))"
    using inv
    by (rule chatLoop_preserves[where P = "neverLimited n", rotated])
       (rule bodyEffect_neverLimited[OF chatBody_effect], use nrl Chat in simp_all)
  then show ?thesis using Chat by (simp add: chatWithFallback_def)
qed

lemma runOps_neverLimited:
  "\<forall>op\<in>set ops. noRateLimitFor n (envOf op) \<Longrightarrow> neverLimited n s
   \<Longrightarrow> neverLimited n (runOps ops s)"
  unfolding runOps_def by (induction ops arbitrary: s) (simp_all add: runOp_neverLimited)

lemma runOp_hasStats: "hasStats n s \<Longrightarrow> hasStats n (runOp op s)"
proof (cases op)
  case (Generate w p cc ip)
  assume inv: "hasStats n s"
  have "hasStats n (fst (generateLoop w p cc ip 0 MODEL_PRIORITY None s))"
    using inv
    by (rule generateLoop_preserves[where P = "hasStats n", rotated])
       (rule bodyEffect_hasStats[OF generateBody_effect])
  then show ?thesis using Generate by (simp add: generateWithFallback_def)
next
  case (Chat w ch msg sid)
  assume inv: "hasStats n s"
  have "hasStats n (fst (chatLoop w msg 0 MODEL_PRIORITY (ch, None) s))"
    using inv
    by (rule chatLoop_preserves[where P = "hasStats n", rotated])
       (rule bodyEffect_hasStats[OF chatBody_effect])
  then show ?thesis using Chat by (simp add: chatWithFallback_def)
qed

lemma runOps_hasStats: "hasStats n s \<Longrightarrow> hasStats n (runOps ops s)"
  unfolding runOps_def by (induction ops arbitrary: s) (simp_all add: runOp_hasStats)

lemma neverLimited_initial: "neverLimited n initialState"
  by (auto simp: neverLimited_def initialState_def freshStats_def dest!: initialModelStats_cases)

lemma hasStats_initial: "mc \<in> set MODEL_PRIORITY \<Longrightarrow> hasStats (name mc) initialState"
  by (auto simp: hasStats_def initialState_def initialModelStats_def MODEL_PRIORITY_def geminiModel_def)

lemma not_limited_without_failure: "lastFailure st = None \<Longrightarrow> \<not> recentlyRateLimited st now"
  by (simp add: recentlyRateLimited_def)

lemma generateBody_issues:
  assumes "modelStats s (name mc) = Some st" and "\<not> recentlyRateLimited st (nowCheck w i)"
    and "\<not> mismatched mc ip"
  shows "issued (fst (generateBody w p cc ip i mc le s)) = issued s @ [requestOf mc p cc ip]"
proof (cases "providerOutcome w mc p cc ip")
  case (Resolves r)
  show ?thesis unfolding generateBody_ok[OF assms Resolves] by simp
next
  case (Throws e)
  show ?thesis unfolding generateBody_fail[OF assms Throws] by simp
qed

text \<open>
  C7. Take any sequence of generate and chat calls from the initial state in which no
  error thrown for a candidate of the registry is classified as a rate limit. Then the
  candidate's \<^verbatim>\<open>lastFailure\<close> is still \<^verbatim>\<open>null\<close>, so the cooldown test is false for it
  at every reading of the clock, and whenever a later call comes to the candidate it issues
  the provider request (on the generate path unless the candidate is a Groq model and the
  request carries an image).
\<close>

theorem cooldown_needs_rate_limit:
  assumes "\<forall>op\<in>set ops. noRateLimitFor (name mc) (envOf op)" and "mc \<in> set MODEL_PRIORITY"
  shows "\<exists>st. modelStats (runOps ops initialState) (name mc) = Some st
           \<and> lastFailure st = None
           \<and> (\<forall>now. \<not> recentlyRateLimited st now)
           \<and> (\<forall>w msg i vars.
                 issued (fst (chatBody w msg i mc vars (runOps ops initialState)))
                   = issued (runOps ops initialState)
                       @ [chatCall mc (fst vars) msg (runOps ops initialState)])
           \<and> (\<forall>w p cc ip i le. \<not> mismatched mc ip \<longrightarrow>
                 issued (fst (generateBody w p cc ip i mc le (runOps ops initialState)))
                   = issued (runOps ops initialState) @ [requestOf mc p cc ip])"
proof -
  let ?s = "runOps ops initialState"
  have "hasStats (name mc) ?s"
    by (rule runOps_hasStats[OF hasStats_initial[OF assms(2)]])
  then obtain st where st: "modelStats ?s (name mc) = Some st"
    by (auto simp: hasStats_def)
  have "neverLimited (name mc) ?s"
    by (rule runOps_neverLimited[OF assms(1) neverLimited_initial])
  then have lf: "lastFailure st = None" using st by (simp add: neverLimited_def)
  then have cold: "\<And>now. \<not> recentlyRateLimited st now"
    by (rule not_limited_without_failure)
  show ?thesis
    using st lf cold chatBody_issues[OF st cold] generateBody_issues[OF st cold] by blast
qed

lemma failingEnv_thrown: "thrownFor (failingEnv m t) n e \<Longrightarrow> e = JsError (Some m)"
  by (auto simp: thrownFor_def failingEnv_def)

lemma failingEnv_boom: "noRateLimitFor n (failingEnv ''boom'' t)"
  unfolding noRateLimitFor_def using boom_not_rate_limit by (auto dest: failingEnv_thrown)

theorem cooldown_needs_rate_limit_witness:
  "noRateLimitFor ''gemini-2.5-flash'' (failingEnv ''boom'' 1000)
   \<and> noRateLimitFor ''gemini-2.5-flash'' (failingEnv ''boom'' 2000)
   \<and> geminiModel ''gemini-2.5-flash'' 8000 \<in> set MODEL_PRIORITY
   \<and> modelStats (runOps [Generate (failingEnv ''boom'' 1000) ''p'' [] None,
                         Chat (failingEnv ''boom'' 2000) None (JStr ''hi'') (JStr ''default'')]
                  initialState) ''gemini-2.5-flash''
       = Some \<lparr>attempts = 2, failures = 2, lastFailure = None, rateLimitHits = 0\<rparr>
   \<and> \<not> recentlyRateLimited \<lparr>attempts = 2, failures = 2, lastFailure = None, rateLimitHits = 0\<rparr> 2001"
proof -
  let ?ops = "[Generate (failingEnv ''boom'' 1000) ''p'' [] None,
               Chat (failingEnv ''boom'' 2000) None (JStr ''hi'') (JStr ''default'')]"
  let ?mc = "geminiModel ''gemini-2.5-flash'' 8000"
  have n: "name ?mc = ''gemini-2.5-flash''" by (simp add: geminiModel_def)
  have h1: "\<forall>op\<in>set ?ops. noRateLimitFor (name ?mc) (envOf op)"
    by (simp add: failingEnv_boom)
  have h2: "?mc \<in> set MODEL_PRIORITY" by (simp add: MODEL_PRIORITY_def)
  have ev: "modelStats (runOps ?ops initialState) ''gemini-2.5-flash''
       = Some \<lparr>attempts = 2, failures = 2, lastFailure = None, rateLimitHits = 0\<rparr>"
    by (simp add: eval_defs failingEnv_def boom_not_rate_limit)
  from cooldown_needs_rate_limit[OF h1 h2] obtain st where
    "modelStats (runOps ?ops initialState) (name ?mc) = Some st" "\<forall>now. \<not> recentlyRateLimited st now"
    by blast
  then have "\<not> recentlyRateLimited \<lparr>attempts = 2, failures = 2, lastFailure = None, rateLimitHits = 0\<rparr> 2001"
    using ev n by simp
  then show ?thesis using ev h2 failingEnv_boom by blast
qed

subsection \<open>The first candidate that succeeds\<close>

lemma providerThrows_outcome:
  assumes "providerThrows w mc p cc ip"
  shows "\<exists>e. providerOutcome w mc p cc ip = Throws e"
proof (cases "provider mc = ''groq''")
  case True
  then show ?thesis
    using assms by (cases "groqCreate w (groqGenerateRequest mc p cc)")
      (simp_all add: providerThrows_def providerOutcome_def)
next
  case False
  then show ?thesis
    using assms by (cases "geminiGenerate w (geminiGenerateRequest mc p cc ip)")
      (simp_all add: providerThrows_def providerOutcome_def)
qed

text \<open>The text the generate path returns is the provider's own: the content of the Groq
  completion, the empty string for a completion without content, the text of the Gemini
  response.\<close>

lemma providerAnswers_outcome:
  assumes "providerAnswers w mc p cc ip t"
  shows "providerOutcome w mc p cc ip = Resolves t"
proof (cases "provider mc = ''groq''")
  case True
  then have "groqCreate w (groqGenerateRequest mc p cc) = Resolves (Some t)
             \<or> (groqCreate w (groqGenerateRequest mc p cc) = Resolves None \<and> t = [])"
    using assms by (simp add: providerAnswers_def)
  then show ?thesis
    using True by (auto simp: providerOutcome_def contentOrEmpty_def)
next
  case False
  then show ?thesis using assms by (simp add: providerAnswers_def providerOutcome_def)
qed

lemma generateBody_bad:
  assumes "skippedOrFails w p cc ip s i mc"
  shows "\<exists>s1 le1 st1. generateBody w p cc ip i mc le s = (s1, Continued le1)
           \<and> modelStats s1 = (modelStats s)(name mc \<mapsto> st1)
           \<and> (issued s1 = issued s \<or> issued s1 = issued s @ [requestOf mc p cc ip])"
proof -
  from assms obtain st where st: "modelStats s (name mc) = Some st"
    by (auto simp: skippedOrFails_def split: option.splits)
  show ?thesis
  proof (cases "recentlyRateLimited st (nowCheck w i) \<or> mismatched mc ip")
    case True
    show ?thesis unfolding generateBody_skip[OF st True] by auto
  next
    case False
    then have nc: "\<not> recentlyRateLimited st (nowCheck w i)" and nm: "\<not> mismatched mc ip" by auto
    have "providerThrows w mc p cc ip"
      using assms st False by (simp add: skippedOrFails_def)
    then obtain e where e: "providerOutcome w mc p cc ip = Throws e"
      using providerThrows_outcome by blast
    show ?thesis unfolding generateBody_fail[OF st nc nm e] by auto
  qed
qed

lemma skippedOrFails_frame:
  "modelStats s1 (name mc) = modelStats s (name mc)
   \<Longrightarrow> skippedOrFails w p cc ip s1 i mc = skippedOrFails w p cc ip s i mc"
  by (simp add: skippedOrFails_def)

lemma succeedsWith_frame:
  "modelStats s1 (name mc) = modelStats s (name mc)
   \<Longrightarrow> succeedsWith w p cc ip s1 i mc t = succeedsWith w p cc ip s i mc t"
  by (simp add: succeedsWith_def)

lemma generateLoop_first_success:
  assumes "distinct (map name (pre @ [mc]))"
    and "\<forall>j<length pre. skippedOrFails w p cc ip s (i + j) (pre ! j)"
    and "succeedsWith w p cc ip s (i + length pre) mc t"
  shows "\<exists>s' new. generateLoop w p cc ip i (pre @ mc # post) le s
                    = (s', Inr (genSuccess mc (providerLiteral mc) t))
           \<and> issued s' = issued s @ new
           \<and> callModel ` set new \<subseteq> name ` set (pre @ [mc])"
  using assms
proof (induction pre arbitrary: i le s)
  case Nil
  then obtain st where st: "modelStats s (name mc) = Some st"
    and nc: "\<not> recentlyRateLimited st (nowCheck w i)" and nm: "\<not> mismatched mc ip"
    and ans: "providerAnswers w mc p cc ip t"
    by (auto simp: succeedsWith_def split: option.splits)
  have ok: "providerOutcome w mc p cc ip = Resolves t"
    by (rule providerAnswers_outcome[OF ans])
  show ?case
    by (rule exI[of _ "issue (requestOf mc p cc ip) (setStats (name mc) (attempted st) s)"],
        rule exI[of _ "[requestOf mc p cc ip]"])
       (simp add: generateBody_ok[OF st nc nm ok])
next
  case (Cons c0 pre')
  have bad0: "skippedOrFails w p cc ip s i c0"
    using Cons.prems(2) by (auto dest: spec[of _ 0])
  from generateBody_bad[OF bad0, of le] obtain s1 le1 st1 where
    b: "generateBody w p cc ip i c0 le s = (s1, Continued le1)"
    and ms: "modelStats s1 = (modelStats s)(name c0 \<mapsto> st1)"
    and iss: "issued s1 = issued s \<or> issued s1 = issued s @ [requestOf c0 p cc ip]"
    by blast
  have other: "\<And>c. c \<in> set (pre' @ [mc]) \<Longrightarrow> modelStats s1 (name c) = modelStats s (name c)"
  proof -
    fix c assume "c \<in> set (pre' @ [mc])"
    then have "name c \<in> name ` set (pre' @ [mc])" by (rule imageI)
    moreover have "name c0 \<notin> name ` set (pre' @ [mc])" using Cons.prems(1) by simp
    ultimately have "name c \<noteq> name c0" by metis
    then show "modelStats s1 (name c) = modelStats s (name c)" using ms by simp
  qed
  have d': "distinct (map name (pre' @ [mc]))" using Cons.prems(1) by simp
  have bad': "\<forall>j<length pre'. skippedOrFails w p cc ip s1 (Suc i + j) (pre' ! j)"
  proof (intro allI impI)
    fix j assume j: "j < length pre'"
    have "skippedOrFails w p cc ip s (i + Suc j) ((c0 # pre') ! Suc j)"
      using Cons.prems(2) j by (auto dest: spec[of _ "Suc j"])
    then have "skippedOrFails w p cc ip s (Suc i + j) (pre' ! j)" by simp
    moreover have "pre' ! j \<in> set (pre' @ [mc])" using j by simp
    ultimately show "skippedOrFails w p cc ip s1 (Suc i + j) (pre' ! j)"
      using other skippedOrFails_frame by blast
  qed
  have good': "succeedsWith w p cc ip s1 (Suc i + length pre') mc t"
    using Cons.prems(3) other[of mc] succeedsWith_frame[of s1 mc s] by simp
  from Cons.IH[OF d' bad' good', of le1] obtain s' new where
    l: "generateLoop w p cc ip (Suc i) (pre' @ mc # post) le1 s1
          = (s', Inr (genSuccess mc (providerLiteral mc) t))"
    and i': "issued s' = issued s1 @ new"
    and m': "callModel ` set new \<subseteq> name ` set (pre' @ [mc])"
    by blast
  from iss show ?case
  proof
    assume "issued s1 = issued s"
    then show ?thesis
      using b l i' m' by (intro exI[of _ s'] exI[of _ new]) auto
  next
    assume "issued s1 = issued s @ [requestOf c0 p cc ip]"
    then show ?thesis
      using b l i' m' by (intro exI[of _ s'] exI[of _ "requestOf c0 p cc ip # new"]) auto
  qed
qed

lemma distinct_names: "distinct (map name MODEL_PRIORITY)"
  by (simp add: MODEL_PRIORITY_def geminiModel_def)

lemma providerLiteral_registry: "mc \<in> set MODEL_PRIORITY \<Longrightarrow> providerLiteral mc = provider mc"
  by (auto simp: MODEL_PRIORITY_def geminiModel_def providerLiteral_def)

lemma newCalls_append: "issued s' = issued s @ new \<Longrightarrow> newCalls s s' = new"
  by (simp add: newCalls_def)

text \<open>
  C5. Let the candidate at position \<open>i\<close> of the registry be the first that is neither cooling
  down nor mismatched and whose provider call succeeds, with the text \<open>t\<close>: every candidate
  before it is cooling down, mismatched, or fails. Then \<^verbatim>\<open>generateWithFallback\<close> returns
  \<open>t\<close> with the name and the provider of that candidate, and no request of the call is
  addressed to a candidate after position \<open>i\<close>.
\<close>

theorem first_success_returned:
  assumes "i < length MODEL_PRIORITY"
    and "\<forall>j<i. skippedOrFails w p cc ip s j (MODEL_PRIORITY ! j)"
    and "succeedsWith w p cc ip s i (MODEL_PRIORITY ! i) t"
  shows "snd (generateWithFallback w p cc ip s)
           = Inr \<lparr>resultText = t, modelUsed = name (MODEL_PRIORITY ! i),
                  providerUsed = provider (MODEL_PRIORITY ! i), success = True\<rparr>
         \<and> (\<forall>k. i < k \<and> k < length MODEL_PRIORITY \<longrightarrow>
               name (MODEL_PRIORITY ! k)
                 \<notin> callModel ` set (newCalls s (fst (generateWithFallback w p cc ip s))))"
proof -
  let ?pre = "take i MODEL_PRIORITY" and ?mc = "MODEL_PRIORITY ! i"
  let ?post = "drop (Suc i) MODEL_PRIORITY"
  have split: "MODEL_PRIORITY = ?pre @ ?mc # ?post"
    using assms(1) by (rule id_take_nth_drop)
  have dist: "distinct (map name (?pre @ ?mc # ?post))"
    using distinct_names split by simp
  then have d: "distinct (map name (?pre @ [?mc]))" by simp
  have len: "length ?pre = i" using assms(1) by simp
  have bad: "\<forall>j<length ?pre. skippedOrFails w p cc ip s (0 + j) (?pre ! j)"
    using assms(2) len by simp
  have good: "succeedsWith w p cc ip s (0 + length ?pre) ?mc t"
    using assms(3) len by simp
  from generateLoop_first_success[OF d bad good, of ?post None] obtain s' new where
    l: "generateLoop w p cc ip 0 (?pre @ ?mc # ?post) None s
          = (s', Inr (genSuccess ?mc (providerLiteral ?mc) t))"
    and i': "issued s' = issued s @ new"
    and m': "callModel ` set new \<subseteq> name ` set (?pre @ [?mc])"
    by blast
  have g: "generateWithFallback w p cc ip s = (s', Inr (genSuccess ?mc (providerLiteral ?mc) t))"
    using l split by (simp add: generateWithFallback_def)
  have "?mc \<in> set MODEL_PRIORITY" using assms(1) by simp
  then have res: "genSuccess ?mc (providerLiteral ?mc) t
      = \<lparr>resultText = t, modelUsed = name ?mc, providerUsed = provider ?mc, success = True\<rparr>"
    by (simp add: genSuccess_def providerLiteral_registry)
  have later: "name (MODEL_PRIORITY ! k) \<notin> callModel ` set new"
    if k: "i < k" "k < length MODEL_PRIORITY" for k
  proof -
    have "MODEL_PRIORITY ! k = ?post ! (k - Suc i)"
      using k by simp
    moreover have "k - Suc i < length ?post" using k by simp
    ultimately have "MODEL_PRIORITY ! k \<in> set ?post" by (metis nth_mem)
    then have "name (MODEL_PRIORITY ! k) \<in> name ` set ?post" by (rule imageI)
    moreover have "name ` set (?pre @ [?mc]) \<inter> name ` set ?post = {}"
      using dist by auto
    ultimately have "name (MODEL_PRIORITY ! k) \<notin> name ` set (?pre @ [?mc])"
      by blast
    then show ?thesis using m' by blast
  qed
  show ?thesis
    using g res later newCalls_append[OF i'] by simp
qed

theorem first_success_returned_witness:
  "(2::nat) < length MODEL_PRIORITY
   \<and> skippedOrFails geminiDownEnv ''p'' [] None initialState 0 (MODEL_PRIORITY ! 0)
   \<and> skippedOrFails geminiDownEnv ''p'' [] None initialState 1 (MODEL_PRIORITY ! 1)
   \<and> groqCreate geminiDownEnv (groqGenerateRequest (MODEL_PRIORITY ! 2) ''p'' [])
       = Resolves (Some ''groq answer'')
   \<and> succeedsWith geminiDownEnv ''p'' [] None initialState 2 (MODEL_PRIORITY ! 2) ''groq answer''
   \<and> snd (generateWithFallback geminiDownEnv ''p'' [] None initialState)
       = Inr \<lparr>resultText = ''groq answer'', modelUsed = ''llama-3.3-70b-versatile'',
              providerUsed = ''groq'', success = True\<rparr>
   \<and> ''gemini-2.5-flash-tts''
       \<notin> callModel ` set (newCalls initialState
                            (fst (generateWithFallback geminiDownEnv ''p'' [] None initialState)))"
proof -
  have h1: "(2::nat) < length MODEL_PRIORITY" by (simp add: MODEL_PRIORITY_def)
  have h20: "skippedOrFails geminiDownEnv ''p'' [] None initialState 0 (MODEL_PRIORITY ! 0)"
    by code_simp
  have h21: "skippedOrFails geminiDownEnv ''p'' [] None initialState 1 (MODEL_PRIORITY ! 1)"
    by code_simp
  have raw: "groqCreate geminiDownEnv (groqGenerateRequest (MODEL_PRIORITY ! 2) ''p'' [])
       = Resolves (Some ''groq answer'')"
    by (simp add: geminiDownEnv_def)
  have h3: "succeedsWith geminiDownEnv ''p'' [] None initialState 2 (MODEL_PRIORITY ! 2) ''groq answer''"
    by code_simp
  have h2: "\<forall>j<2. skippedOrFails geminiDownEnv ''p'' [] None initialState j (MODEL_PRIORITY ! j)"
    using h20 h21 by (simp add: less_Suc_eq numeral_2_eq_2)
  have n2: "name (MODEL_PRIORITY ! 2) = ''llama-3.3-70b-versatile''"
    and p2: "provider (MODEL_PRIORITY ! 2) = ''groq''"
    and n3: "name (MODEL_PRIORITY ! 3) = ''gemini-2.5-flash-tts''"
    by (simp_all add: MODEL_PRIORITY_def geminiModel_def)
  have "(2::nat) < 3 \<and> (3::nat) < length MODEL_PRIORITY" by (simp add: MODEL_PRIORITY_def)
  with first_success_returned[OF h1 h2 h3] n2 p2 n3 h1 h20 h21 raw h3 show ?thesis
    by (metis (no_types, lifting))
qed

subsection \<open>A request with an image and the Groq candidates\<close>

lemma generateBody_other:
  assumes "name mc \<noteq> n"
  shows "modelStats (fst (generateBody w p cc ip i mc le s)) n = modelStats s n"
proof -
  have "bodyEffect w (name mc) s (fst (generateBody w p cc ip i mc le s))"
    by (rule generateBody_effect)
  then show ?thesis using assms by (auto simp: bodyEffect_def)
qed

lemma generateBody_image_groq:
  assumes "provider mc = ''groq''" and "ip \<noteq> None" and "modelStats s (name mc) = Some st"
  shows "generateBody w p cc ip i mc le s = (setStats (name mc) (attempted st) s, Continued le)"
  by (rule generateBody_skip[OF assms(3)]) (simp add: mismatched_def assms)

lemma onlyAttempts_refl: "onlyAttempts k st st"
  by (simp add: onlyAttempts_def)

lemma onlyAttempts_step:
  "onlyAttempts k (attempted st) st' \<Longrightarrow> onlyAttempts (Suc k) st st'"
  by (simp add: onlyAttempts_def attempted_def)

lemma generateLoop_image_groq:
  assumes "\<forall>mc\<in>set mcs. name mc = n \<longrightarrow> provider mc = ''groq''" and "ip \<noteq> None"
    and "modelStats s n = Some st"
  shows "\<exists>st'. modelStats (fst (generateLoop w p cc ip i mcs le s)) n = Some st'
           \<and> onlyAttempts (length (filter (\<lambda>mc. name mc = n) mcs)) st st'"
  using assms
proof (induction mcs arbitrary: i le s st)
  case Nil
  then show ?case by (simp add: onlyAttempts_refl)
next
  case (Cons mc rest)
  have rest: "\<forall>mc\<in>set rest. name mc = n \<longrightarrow> provider mc = ''groq''"
    using Cons.prems(1) by simp
  obtain s1 f where b: "generateBody w p cc ip i mc le s = (s1, f)"
    by (cases "generateBody w p cc ip i mc le s")
  show ?case
  proof (cases "name mc = n")
    case True
    then have groq: "provider mc = ''groq''" using Cons.prems(1) by simp
    have st: "modelStats s (name mc) = Some st" using Cons.prems(3) True by simp
    have b': "generateBody w p cc ip i mc le s = (setStats (name mc) (attempted st) s, Continued le)"
      by (rule generateBody_image_groq[OF groq Cons.prems(2) st])
    have "modelStats (setStats (name mc) (attempted st) s) n = Some (attempted st)"
      using True by simp
    from Cons.IH[OF rest Cons.prems(2) this, of "Suc i" le] obtain st' where
      "modelStats (fst (generateLoop w p cc ip (Suc i) rest le (setStats (name mc) (attempted st) s))) n
         = Some st'"
      "onlyAttempts (length (filter (\<lambda>mc. name mc = n) rest)) (attempted st) st'"
      by blast
    then show ?thesis using b' True by (auto intro: onlyAttempts_step)
  next
    case False
    have same: "modelStats s1 n = Some st"
      using generateBody_other[OF False, of w p cc ip i le s] b Cons.prems(3) by simp
    show ?thesis
    proof (cases f)
      case (Continued le1)
      from Cons.IH[OF rest Cons.prems(2) same, of "Suc i" le1] show ?thesis
        using b Continued False by simp
    qed (use b same False in \<open>simp_all add: onlyAttempts_refl\<close>)
  qed
qed

lemma generateBody_image_no_groq_call:
  assumes "ip \<noteq> None"
  shows "issued (fst (generateBody w p cc ip i mc le s)) = issued s
         \<or> (\<exists>c. \<not> isGroqCall c \<and> issued (fst (generateBody w p cc ip i mc le s)) = issued s @ [c])"
proof (cases "modelStats s (name mc)")
  case None
  then show ?thesis by (simp add: generateBody_missing)
next
  case (Some st)
  show ?thesis
  proof (cases "recentlyRateLimited st (nowCheck w i) \<or> mismatched mc ip")
    case True
    show ?thesis unfolding generateBody_skip[OF Some True] by simp
  next
    case False
    then have nc: "\<not> recentlyRateLimited st (nowCheck w i)" and nm: "\<not> mismatched mc ip" by auto
    have ng: "\<not> isGroqCall (requestOf mc p cc ip)"
      using nm assms by (simp add: mismatched_def requestOf_def)
    show ?thesis
    proof (cases "providerOutcome w mc p cc ip")
      case (Resolves t)
      show ?thesis unfolding generateBody_ok[OF Some nc nm Resolves] using ng by simp
    next
      case (Throws e)
      show ?thesis unfolding generateBody_fail[OF Some nc nm Throws] using ng by simp
    qed
  qed
qed

lemma generateLoop_image_no_groq_call:
  assumes "ip \<noteq> None"
  shows "\<exists>new. issued (fst (generateLoop w p cc ip i mcs le s)) = issued s @ new
               \<and> (\<forall>c\<in>set new. \<not> isGroqCall c)"
proof -
  let ?P = "\<lambda>s'. \<exists>new. issued s' = issued s @ new \<and> (\<forall>c\<in>set new. \<not> isGroqCall c)"
  have "?P (fst (generateLoop w p cc ip i mcs le s))"
  proof (rule generateLoop_preserves[where P = ?P])
    show "?P s" by simp
  next
    fix i mc le and s0 :: state
    assume "?P s0"
    then obtain new where n: "issued s0 = issued s @ new" "\<forall>c\<in>set new. \<not> isGroqCall c"
      by blast
    from generateBody_image_no_groq_call[OF assms, of w p cc i mc le s0]
    show "?P (fst (generateBody w p cc ip i mc le s0))"
    proof
      assume "issued (fst (generateBody w p cc ip i mc le s0)) = issued s0"
      then show ?thesis using n by auto
    next
      assume "\<exists>c. \<not> isGroqCall c
                \<and> issued (fst (generateBody w p cc ip i mc le s0)) = issued s0 @ [c]"
      then obtain c where "\<not> isGroqCall c"
        "issued (fst (generateBody w p cc ip i mc le s0)) = issued s0 @ [c]" by blast
      then show ?thesis using n by (intro exI[of _ "new @ [c]"]) auto
    qed
  qed
  then show ?thesis .
qed

lemma groq_in_registry:
  "mc \<in> set MODEL_PRIORITY \<Longrightarrow> provider mc = ''groq'' \<Longrightarrow> name mc = ''llama-3.3-70b-versatile''"
  by (auto simp: MODEL_PRIORITY_def geminiModel_def)

lemma llama_once:
  "length (filter (\<lambda>mc. name mc = ''llama-3.3-70b-versatile'') MODEL_PRIORITY) = 1"
  by (simp add: MODEL_PRIORITY_def geminiModel_def)

lemma llama_is_groq:
  "\<forall>mc\<in>set MODEL_PRIORITY. name mc = ''llama-3.3-70b-versatile'' \<longrightarrow> provider mc = ''groq''"
  by (simp add: MODEL_PRIORITY_def geminiModel_def)

text \<open>
  C2, as amended. When the request carries an image (\<^verbatim>\<open>imageParts\<close> is an array), a call
  of \<^verbatim>\<open>generateWithFallback\<close> issues no Groq request at all, and for a Groq candidate of
  the registry it leaves \<open>failures\<close>, \<open>rateLimitHits\<close> and \<open>lastFailure\<close> as they were; the
  \<open>attempts\<close> counter of the candidate does not go down and grows by one at most.
\<close>

theorem image_skips_groq:
  assumes "mc \<in> set MODEL_PRIORITY" and "provider mc = ''groq''"
    and "modelStats s (name mc) = Some st"
  shows "\<exists>st'. modelStats (fst (generateWithFallback w p cc (Some parts) s)) (name mc) = Some st'
           \<and> failures st' = failures st \<and> rateLimitHits st' = rateLimitHits st
           \<and> lastFailure st' = lastFailure st
           \<and> attempts st \<le> attempts st' \<and> attempts st' \<le> attempts st + 1
           \<and> list_all (\<lambda>c. \<not> isGroqCall c)
                (newCalls s (fst (generateWithFallback w p cc (Some parts) s)))"
proof -
  have n: "name mc = ''llama-3.3-70b-versatile''"
    by (rule groq_in_registry[OF assms(1,2)])
  have ip: "Some parts \<noteq> None" by simp
  from generateLoop_image_groq[OF llama_is_groq ip, of s st w p cc 0 None] assms(3) n
  obtain st' where
    "modelStats (fst (generateLoop w p cc (Some parts) 0 MODEL_PRIORITY None s)) (name mc) = Some st'"
    "onlyAttempts 1 st st'"
    by (auto simp: llama_once)
  moreover from generateLoop_image_no_groq_call[OF ip, of w p cc 0 MODEL_PRIORITY None s]
  have "list_all (\<lambda>c. \<not> isGroqCall c)
          (newCalls s (fst (generateLoop w p cc (Some parts) 0 MODEL_PRIORITY None s)))"
    by (auto simp: newCalls_def list_all_iff)
  ultimately show ?thesis
    by (auto simp: generateWithFallback_def onlyAttempts_def)
qed

theorem image_skips_groq_witness:
  "MODEL_PRIORITY ! 2 \<in> set MODEL_PRIORITY
   \<and> provider (MODEL_PRIORITY ! 2) = ''groq''
   \<and> modelStats initialState (name (MODEL_PRIORITY ! 2)) = Some freshStats
   \<and> modelStats (fst (generateWithFallback geminiDownEnv ''p'' []
                        (Some [\<lparr>data = ''QUJD'', mimeType = ''image/jpeg''\<rparr>]) initialState))
        ''llama-3.3-70b-versatile''
       = Some \<lparr>attempts = 1, failures = 0, lastFailure = None, rateLimitHits = 0\<rparr>
   \<and> list_all (\<lambda>c. \<not> isGroqCall c)
        (newCalls initialState
           (fst (generateWithFallback geminiDownEnv ''p'' []
                   (Some [\<lparr>data = ''QUJD'', mimeType = ''image/jpeg''\<rparr>]) initialState)))"
proof -
  have h1: "MODEL_PRIORITY ! 2 \<in> set MODEL_PRIORITY" by (simp add: MODEL_PRIORITY_def)
  have h2: "provider (MODEL_PRIORITY ! 2) = ''groq''" by (simp add: MODEL_PRIORITY_def)
  have h3: "modelStats initialState (name (MODEL_PRIORITY ! 2)) = Some freshStats" by code_simp
  have ev: "modelStats (fst (generateWithFallback geminiDownEnv ''p'' []
                        (Some [\<lparr>data = ''QUJD'', mimeType = ''image/jpeg''\<rparr>]) initialState))
        ''llama-3.3-70b-versatile''
       = Some \<lparr>attempts = 1, failures = 0, lastFailure = None, rateLimitHits = 0\<rparr>"
    by code_simp
  from image_skips_groq[OF h1 h2 h3, of geminiDownEnv "''p''" "[]"
      "[\<lparr>data = ''QUJD'', mimeType = ''image/jpeg''\<rparr>]"]
  have "list_all (\<lambda>c. \<not> isGroqCall c)
        (newCalls initialState
           (fst (generateWithFallback geminiDownEnv ''p'' []
                   (Some [\<lparr>data = ''QUJD'', mimeType = ''image/jpeg''\<rparr>]) initialState)))"
    by blast
  then show ?thesis using h1 h2 h3 ev by blast
qed

theorem image_skip_counts_attempt:
  "modelStats initialState ''llama-3.3-70b-versatile''
     = Some \<lparr>attempts = 0, failures = 0, lastFailure = None, rateLimitHits = 0\<rparr>
   \<and> modelStats (fst (generateWithFallback geminiDownEnv ''p'' []
                        (Some [\<lparr>data = ''QUJD'', mimeType = ''image/jpeg''\<rparr>]) initialState))
        ''llama-3.3-70b-versatile''
       = Some \<lparr>attempts = 1, failures = 0, lastFailure = None, rateLimitHits = 0\<rparr>"
  by code_simp

subsection \<open>A chat turn served by Groq\<close>

lemma grownFrom_refl: "grownFrom c c"
  by (simp add: grownFrom_def)

lemma grownFrom_trans: "grownFrom c c' \<Longrightarrow> grownFrom c' c'' \<Longrightarrow> grownFrom c c''"
  by (auto simp: grownFrom_def)

lemma objectsKept_refl: "objectsKept xs xs"
  by (simp add: objectsKept_def grownFrom_refl)

lemma objectsKept_trans:
  assumes "objectsKept xs ys" and "objectsKept ys zs"
  shows "objectsKept xs zs"
  unfolding objectsKept_def
proof (intro conjI allI impI)
  show "length xs \<le> length zs" using assms by (simp add: objectsKept_def)
next
  fix a assume a: "a < length xs"
  then have "a < length ys" using assms(1) by (simp add: objectsKept_def)
  then have "grownFrom (ys ! a) (zs ! a)" using assms(2) by (simp add: objectsKept_def)
  moreover have "grownFrom (xs ! a) (ys ! a)" using assms(1) a by (simp add: objectsKept_def)
  ultimately show "grownFrom (xs ! a) (zs ! a)" using grownFrom_trans by blast
qed

lemma prefix_nth: "prefix xs ys \<Longrightarrow> a < length xs \<Longrightarrow> ys ! a = xs ! a"
  by (auto simp: prefix_def nth_append)

lemma prefix_objectsKept: "prefix xs ys \<Longrightarrow> objectsKept xs ys"
  by (simp add: objectsKept_def prefix_length_le prefix_nth grownFrom_refl)

lemma appendTurns_kept: "objectsKept (chatObjects s) (chatObjects (appendTurns a ts s))"
proof (cases "chatAt s a")
  case None
  then show ?thesis by (simp add: appendTurns_def objectsKept_refl)
next
  case (Some c)
  then have a: "a < length (chatObjects s)" and c: "c = chatObjects s ! a"
    by (auto simp: chatAt_def split: if_splits)
  have "grownFrom (chatObjects s ! b) ((chatObjects s)[a := c\<lparr>history := history c @ ts\<rparr>] ! b)"
    if "b < length (chatObjects s)" for b
    using that c by (cases "b = a") (simp_all add: grownFrom_def)
  then show ?thesis using Some by (simp add: appendTurns_def objectsKept_def)
qed

lemma chatBody_kept: "objectsKept (chatObjects s) (chatObjects (fst (chatBody w msg i mc vars s)))"
proof (cases "modelStats s (name mc)")
  case None
  then show ?thesis by (simp add: chatBody_missing objectsKept_refl)
next
  case (Some st)
  show ?thesis
  proof (cases "recentlyRateLimited st (nowCheck w i)")
    case True
    show ?thesis unfolding chatBody_cool[OF Some True] by (simp add: objectsKept_refl)
  next
    case nc: False
    have grow: "objectsKept (chatObjects s) (chatObjects (appendTurns a ts (issue c (setStats n st' s2))))"
      if "prefix (chatObjects s) (chatObjects s2)" for a ts c n st' s2
    proof -
      have "objectsKept (chatObjects s) (chatObjects (issue c (setStats n st' s2)))"
        using that by (simp add: prefix_objectsKept)
      then show ?thesis using appendTurns_kept objectsKept_trans by blast
    qed
    from Some nc show ?thesis
    proof (cases rule: chatPass_cases[where msg = msg and vars = vars])
      case (groq_ok c)
      then show ?thesis by (simp add: objectsKept_refl)
    next
      case (groq_fail e)
      then show ?thesis by (simp add: objectsKept_refl)
    next
      case (gemini_throw a c s2 e)
      then show ?thesis by (simp add: prefix_objectsKept chatFor_facts(6))
    next
      case (gemini_blocked a c s2 r e)
      then show ?thesis using grow[OF chatFor_facts(6)[OF gemini_blocked(2)]] by simp
    next
      case (gemini_ok a c s2 r t)
      then show ?thesis using grow[OF chatFor_facts(6)[OF gemini_ok(2)]] by simp
    qed
  qed
qed

lemma chatLoop_kept: "objectsKept (chatObjects s) (chatObjects (fst (chatLoop w msg i mcs vars s)))"
proof -
  let ?P = "\<lambda>s' :: state. objectsKept (chatObjects s) (chatObjects s')"
  have "?P (fst (chatLoop w msg i mcs vars s))"
  proof (rule chatLoop_preserves[where P = ?P])
    show "?P s" by (rule objectsKept_refl)
  next
    fix i mc vars and s0 :: state
    assume "?P s0"
    then show "?P (fst (chatBody w msg i mc vars s0))"
      using chatBody_kept objectsKept_trans by blast
  qed
  then show ?thesis .
qed

text \<open>A pass that returns for Groq carries no chat and touches no chat object; a pass that
  goes on to the next candidate leaves the chat objects as they are when no blocked
  response had turns appended.\<close>

lemma chatBody_Returned_groq:
  assumes "chatBody w msg i mc vars s = (s', Returned r)" and "chatProviderUsed r = ''groq''"
  shows "resultChat r = None \<and> chatObjects s' = chatObjects s"
proof (cases "modelStats s (name mc)")
  case None
  then show ?thesis using assms by (simp add: chatBody_missing)
next
  case (Some st)
  show ?thesis
  proof (cases "recentlyRateLimited st (nowCheck w i)")
    case True
    then show ?thesis using assms chatBody_cool[OF Some True] by simp
  next
    case nc: False
    from Some nc show ?thesis
    proof (cases rule: chatPass_cases[where msg = msg and vars = vars])
      case (groq_ok c)
      then show ?thesis using assms by (auto simp: chatSuccessResult_def)
    next
      case (groq_fail e)
      then show ?thesis using assms by simp
    next
      case (gemini_throw a c s2 e)
      then show ?thesis using assms by simp
    next
      case (gemini_blocked a c s2 r' e)
      then show ?thesis using assms by simp
    next
      case (gemini_ok a c s2 r' t)
      then show ?thesis using assms by (auto simp: chatSuccessResult_def)
    qed
  qed
qed

lemma chatBody_Continued_quiet:
  assumes "quietBlocks w" and "chatBody w msg i mc vars s = (s', Continued vars')"
  shows "prefix (chatObjects s) (chatObjects s')"
proof (cases "modelStats s (name mc)")
  case None
  then show ?thesis using assms by (simp add: chatBody_missing)
next
  case (Some st)
  show ?thesis
  proof (cases "recentlyRateLimited st (nowCheck w i)")
    case True
    then show ?thesis using assms chatBody_cool[OF Some True] by simp
  next
    case nc: False
    from Some nc show ?thesis
    proof (cases rule: chatPass_cases[where msg = msg and vars = vars])
      case (groq_ok c)
      then show ?thesis using assms by simp
    next
      case (groq_fail e)
      then show ?thesis using assms by auto
    next
      case (gemini_throw a c s2 e)
      then show ?thesis using assms chatFor_facts(6)[OF gemini_throw(2)] by auto
    next
      case (gemini_blocked a c s2 r e)
      have "appended r = []"
        using assms(1) gemini_blocked(3,4) unfolding quietBlocks_def by blast
      then show ?thesis
        using assms gemini_blocked(5) chatFor_facts(6)[OF gemini_blocked(2)] by auto
    next
      case (gemini_ok a c s2 r t)
      then show ?thesis using assms by simp
    qed
  qed
qed

lemma chatLoop_groq:
  assumes "chatLoop w msg i mcs vars s = (s', Inr r)" and "chatProviderUsed r = ''groq''"
  shows "resultChat r = None \<and> (quietBlocks w \<longrightarrow> prefix (chatObjects s) (chatObjects s'))"
  using assms(1)
proof (induction mcs arbitrary: i vars s)
  case Nil
  then show ?case by simp
next
  case (Cons mc rest)
  obtain s1 f where b: "chatBody w msg i mc vars s = (s1, f)"
    by (cases "chatBody w msg i mc vars s")
  show ?case
  proof (cases f)
    case (Returned r')
    then have "r' = r" "s1 = s'" using Cons.prems b by simp_all
    then show ?thesis using chatBody_Returned_groq[of w msg i mc vars s s' r] b Returned assms(2)
      by simp
  next
    case (Thrown e)
    then show ?thesis using Cons.prems b by simp
  next
    case (Continued vars')
    then have l: "chatLoop w msg (Suc i) rest vars' s1 = (s', Inr r)"
      using Cons.prems b by simp
    have ih: "resultChat r = None \<and> (quietBlocks w \<longrightarrow> prefix (chatObjects s1) (chatObjects s'))"
      using l by (rule Cons.IH)
    have "quietBlocks w \<longrightarrow> prefix (chatObjects s) (chatObjects s1)"
      using chatBody_Continued_quiet b Continued by blast
    then show ?thesis using ih by (auto intro: prefix_order.trans)
  qed
qed

lemma chatLoop_sessions: "chatSessions (fst (chatLoop w msg i mcs vars s)) = chatSessions s"
proof -
  let ?P = "\<lambda>s' :: state. chatSessions s' = chatSessions s"
  have "?P (fst (chatLoop w msg i mcs vars s))"
  proof (rule chatLoop_preserves[where P = ?P])
    show "?P s" by simp
  next
    fix i mc vars and s0 :: state
    assume "?P s0"
    moreover have "bodyEffect w (name mc) s0 (fst (chatBody w msg i mc vars s0))"
      by (rule chatBody_effect)
    ultimately show "?P (fst (chatBody w msg i mc vars s0))"
      by (simp add: bodyEffect_def)
  qed
  then show ?thesis .
qed

lemma twoMessages_chatCall: "twoMessages msg (chatCall mc ch msg s)"
  by (simp add: twoMessages_def chatCall_def groqChatRequest_def)

lemma chatBody_twoMessages:
  "issued (fst (chatBody w msg i mc vars s)) = issued s
   \<or> issued (fst (chatBody w msg i mc vars s)) = issued s @ [chatCall mc (fst vars) msg s]"
proof (cases "modelStats s (name mc)")
  case None
  then show ?thesis by (simp add: chatBody_missing)
next
  case (Some st)
  show ?thesis
  proof (cases "recentlyRateLimited st (nowCheck w i)")
    case True
    show ?thesis unfolding chatBody_cool[OF Some True] by simp
  next
    case False
    show ?thesis using chatBody_issues[OF Some False] by simp
  qed
qed

lemma chatLoop_twoMessages:
  "\<exists>new. issued (fst (chatLoop w msg i mcs vars s)) = issued s @ new
         \<and> list_all (twoMessages msg) new"
proof -
  let ?P = "\<lambda>s' :: state. \<exists>new. issued s' = issued s @ new \<and> list_all (twoMessages msg) new"
  have "?P (fst (chatLoop w msg i mcs vars s))"
  proof (rule chatLoop_preserves[where P = ?P])
    show "?P s" by simp
  next
    fix i mc vars and s0 :: state
    assume "?P s0"
    then obtain new where n: "issued s0 = issued s @ new" "list_all (twoMessages msg) new"
      by blast
    from chatBody_twoMessages[of w msg i mc vars s0]
    show "?P (fst (chatBody w msg i mc vars s0))"
    proof
      assume "issued (fst (chatBody w msg i mc vars s0)) = issued s0"
      then show ?thesis using n by auto
    next
      assume "issued (fst (chatBody w msg i mc vars s0)) = issued s0 @ [chatCall mc (fst vars) msg s0]"
      then show ?thesis
        using n twoMessages_chatCall
        by (intro exI[of _ "new @ [chatCall mc (fst vars) msg s0]"]) simp
    qed
  qed
  then show ?thesis .
qed

lemma storeChat_issued [simp]: "issued (storeChat k c s) = issued s"
  by (simp add: storeChat_def split: option.splits)

lemma api_chat_Json:
  assumes "snd (api_chat w req s) = Json j"
  obtains s1 r where
    "chatWithFallback w (chatSessions s (sessionIdOf (body req))) (getProp (body req) ''message'')
       (sessionIdOf (body req)) s = (s1, Inr r)"
    "fst (api_chat w req s) = storeChat (sessionIdOf (body req)) (resultChat r) s1"
    "getProp j ''provider'' = JStr (chatProviderUsed r)"
proof -
  let ?sid = "sessionIdOf (body req)" and ?msg = "getProp (body req) ''message''"
  obtain s1 res where c: "chatWithFallback w (chatSessions s ?sid) ?msg ?sid s = (s1, res)"
    by (cases "chatWithFallback w (chatSessions s ?sid) ?msg ?sid s")
  have li: "truthy (sessionUserId req)"
    using assms by (auto simp: api_chat_def route_def split: if_splits)
  have tm: "truthy ?msg"
    using assms li by (auto simp: api_chat_def route_def chatHandler_def Let_def split: if_splits)
  show ?thesis
  proof (cases res)
    case (Inl e)
    then have "snd (api_chat w req s) = errorHandler e"
      using c li tm by (simp add: api_chat_def route_def chatHandler_def Let_def)
    then show ?thesis using assms by (cases e) simp_all
  next
    case (Inr r)
    show ?thesis
    proof (rule that[of s1 r])
      show "chatWithFallback w (chatSessions s ?sid) ?msg ?sid s = (s1, Inr r)"
        using c Inr by simp
      show "fst (api_chat w req s) = storeChat ?sid (resultChat r) s1"
        using c Inr li tm by (simp add: api_chat_def route_def chatHandler_def Let_def)
      have "j = [(''reply'', JStr (reply r)), (''success'', JBool True), (''sessionId'', ?sid),
                 (''modelUsed'', JStr (chatModelUsed r)), (''provider'', JStr (chatProviderUsed r))]"
        using assms c Inr li tm by (simp add: api_chat_def route_def chatHandler_def Let_def)
      then show "getProp j ''provider'' = JStr (chatProviderUsed r)"
        by (simp add: getProp_def)
    qed
  qed
qed

lemma sessionOf_kept:
  assumes "chatSessions s' = chatSessions s"
    and "objectsKept (chatObjects s) (chatObjects s')" and "sessionOf s k = Some c"
  shows "\<exists>c'. sessionOf s' k = Some c' \<and> grownFrom c c'"
proof -
  from assms(3) obtain a where a: "chatSessions s k = Some a" "a < length (chatObjects s)"
    "c = chatObjects s ! a"
    by (auto simp: sessionOf_def chatAt_def split: option.splits if_splits)
  then have "a < length (chatObjects s')" "grownFrom c (chatObjects s' ! a)"
    using assms(2) by (auto simp: objectsKept_def)
  then show ?thesis using a(1) assms(1) by (simp add: sessionOf_def chatAt_def)
qed

lemma sessionOf_prefix:
  assumes "chatSessions s' = chatSessions s"
    and "prefix (chatObjects s) (chatObjects s')" and "sessionOf s k = Some c"
  shows "sessionOf s' k = Some c"
proof -
  from assms(3) obtain a where a: "chatSessions s k = Some a" "a < length (chatObjects s)"
    "c = chatObjects s ! a"
    by (auto simp: sessionOf_def chatAt_def split: option.splits if_splits)
  then have "a < length (chatObjects s')" "chatObjects s' ! a = c"
    using assms(2) prefix_length_le[OF assms(2)] by (auto simp: prefix_nth)
  then show ?thesis using a(1) assms(1) by (simp add: sessionOf_def chatAt_def)
qed

text \<open>
  C10, as amended. When \<^verbatim>\<open>/api/chat\<close> answers with the provider \<^verbatim>\<open>groq\<close>, the result of
  \<^verbatim>\<open>chatWithFallback\<close> carries no chat object and the handler does not write
  \<^verbatim>\<open>chatSessions\<close>: every key refers to the chat object it referred to before. A session
  that was stored is still there, bound to the same model and with its earlier history as
  the beginning of its history; it is unchanged altogether when no response whose
  \<^verbatim>\<open>text()\<close> threw had turns appended to a chat object. Every Groq request of the turn
  holds two messages: the fixed system message and the user's message.
\<close>

theorem groq_turn_keeps_session:
  assumes "snd (api_chat w req s) = Json j" and "getProp j ''provider'' = JStr ''groq''"
  shows "chatSessions (fst (api_chat w req s)) = chatSessions s
         \<and> (\<forall>k c. sessionOf s k = Some c \<longrightarrow>
               (\<exists>c'. sessionOf (fst (api_chat w req s)) k = Some c' \<and> grownFrom c c')
               \<and> (quietBlocks w \<longrightarrow> sessionOf (fst (api_chat w req s)) k = Some c))
         \<and> list_all (twoMessages (getProp (body req) ''message''))
             (newCalls s (fst (api_chat w req s)))
         \<and> (\<exists>s1 r. chatWithFallback w (chatSessions s (sessionIdOf (body req)))
                      (getProp (body req) ''message'') (sessionIdOf (body req)) s = (s1, Inr r)
                    \<and> chatProviderUsed r = ''groq'' \<and> resultChat r = None)"
proof -
  let ?sid = "sessionIdOf (body req)" and ?msg = "getProp (body req) ''message''"
  from api_chat_Json[OF assms(1)] obtain s1 r where
    c: "chatWithFallback w (chatSessions s ?sid) ?msg ?sid s = (s1, Inr r)"
    and f: "fst (api_chat w req s) = storeChat ?sid (resultChat r) s1"
    and p: "getProp j ''provider'' = JStr (chatProviderUsed r)"
    by blast
  have groq: "chatProviderUsed r = ''groq''" using p assms(2) by simp
  have l: "chatLoop w ?msg 0 MODEL_PRIORITY (chatSessions s ?sid, None) s = (s1, Inr r)"
    using c by (simp add: chatWithFallback_def)
  from chatLoop_groq[OF l groq]
  have none: "resultChat r = None"
    and quiet: "quietBlocks w \<longrightarrow> prefix (chatObjects s) (chatObjects s1)"
    by simp_all
  have s1: "s1 = fst (chatLoop w ?msg 0 MODEL_PRIORITY (chatSessions s ?sid, None) s)"
    using l by simp
  have sess: "chatSessions s1 = chatSessions s"
    unfolding s1 by (rule chatLoop_sessions)
  have kept: "objectsKept (chatObjects s) (chatObjects s1)"
    unfolding s1 by (rule chatLoop_kept)
  from chatLoop_twoMessages[of w ?msg 0 MODEL_PRIORITY "(chatSessions s ?sid, None)" s]
  have calls: "list_all (twoMessages ?msg) (newCalls s s1)"
    unfolding s1 by (auto simp: newCalls_def)
  have final: "fst (api_chat w req s) = s1" using f none by (simp add: storeChat_def)
  have stored: "(\<exists>c'. sessionOf s1 k = Some c' \<and> grownFrom c c')
                \<and> (quietBlocks w \<longrightarrow> sessionOf s1 k = Some c)"
    if "sessionOf s k = Some c" for k c
    using sessionOf_kept[OF sess kept that] sessionOf_prefix[OF sess _ that] quiet by blast
  show ?thesis
    unfolding final using sess calls c groq none stored by blast
qed

theorem groq_turn_keeps_session_witness:
  "snd (api_chat geminiDownEnv (loggedIn [(''message'', JStr ''I have a headache'')]) sessionState)
     = Json [(''reply'', JStr ''groq answer''), (''success'', JBool True),
             (''sessionId'', JStr ''default''), (''modelUsed'', JStr ''llama-3.3-70b-versatile''),
             (''provider'', JStr ''groq'')]
   \<and> quietBlocks geminiDownEnv
   \<and> sessionOf sessionState (JStr ''default'') = Some storedChat
   \<and> sessionOf (fst (api_chat geminiDownEnv
                        (loggedIn [(''message'', JStr ''I have a headache'')]) sessionState))
        (JStr ''default'') = Some storedChat"
proof -
  let ?req = "loggedIn [(''message'', JStr ''I have a headache'')]"
  let ?j = "[(''reply'', JStr ''groq answer''), (''success'', JBool True),
             (''sessionId'', JStr ''default''), (''modelUsed'', JStr ''llama-3.3-70b-versatile''),
             (''provider'', JStr ''groq'')]"
  have h1: "snd (api_chat geminiDownEnv ?req sessionState) = Json ?j"
    by (simp add: eval_defs geminiDownEnv_def sessionState_def storedChat_def loggedIn_def
          boom_not_rate_limit)
  have h2: "getProp ?j ''provider'' = JStr ''groq''" by (simp add: getProp_def)
  have q: "quietBlocks geminiDownEnv" by (simp add: quietBlocks_def geminiDownEnv_def)
  have before: "sessionOf sessionState (JStr ''default'') = Some storedChat"
    by (simp add: sessionOf_def sessionState_def chatAt_def)
  from groq_turn_keeps_session[OF h1 h2] before q
  have "sessionOf (fst (api_chat geminiDownEnv ?req sessionState)) (JStr ''default'')
          = Some storedChat"
    by blast
  then show ?thesis using h1 q before by simp
qed

theorem blocked_reply_grows_session:
  "snd (api_chat blockedEnv (loggedIn [(''message'', JStr ''I have a headache'')]) sessionState)
     = Json [(''reply'', JStr ''groq answer''), (''success'', JBool True),
             (''sessionId'', JStr ''default''), (''modelUsed'', JStr ''llama-3.3-70b-versatile''),
             (''provider'', JStr ''groq'')]
   \<and> sessionOf sessionState (JStr ''default'')
       = Some \<lparr>modelName = ''gemini-2.5-flash'', chatConfig = geminiConfig 8000,
               history = initialHistory @ [(''user'', JStr ''hello''), (''model'', JStr ''hi there'')]\<rparr>
   \<and> sessionOf (fst (api_chat blockedEnv
                        (loggedIn [(''message'', JStr ''I have a headache'')]) sessionState))
        (JStr ''default'')
       = Some \<lparr>modelName = ''gemini-2.5-flash'', chatConfig = geminiConfig 8000,
               history = initialHistory @ [(''user'', JStr ''hello''), (''model'', JStr ''hi there''),
                                           (''user'', JStr ''I have a headache''),
                                           (''model'', JStr [])]\<rparr>"
  by (simp add: eval_defs blockedEnv_def sessionState_def storedChat_def loggedIn_def
        blocked_not_rate_limit)

subsection \<open>Configuration overrides\<close>

lemma map_of_spread: "map_of (spread a b) = map_of a ++ map_of b"
  by (simp add: spread_def merge_conv')

lemma getProp_spread:
  "getProp (spread a b) k = (case map_of b k of Some v \<Rightarrow> v | None \<Rightarrow> getProp a k)"
  by (simp add: getProp_def map_of_spread map_add_def split: option.splits)

lemma overridesApplied_requestOf: "overridesApplied mc cc (requestOf mc p cc ip)"
proof (cases "provider mc = ''groq''")
  case True
  then show ?thesis
    by (simp add: overridesApplied_def requestOf_def groqGenerateRequest_def js_or_def getProp_def)
next
  case False
  then show ?thesis
    by (simp add: overridesApplied_def requestOf_def geminiGenerateRequest_def getProp_spread)
qed

lemma generateBody_requests:
  "issued (fst (generateBody w p cc ip i mc le s)) = issued s
   \<or> issued (fst (generateBody w p cc ip i mc le s)) = issued s @ [requestOf mc p cc ip]"
proof (cases "modelStats s (name mc)")
  case None
  then show ?thesis by (simp add: generateBody_missing)
next
  case (Some st)
  show ?thesis
  proof (cases "recentlyRateLimited st (nowCheck w i) \<or> mismatched mc ip")
    case True
    show ?thesis unfolding generateBody_skip[OF Some True] by simp
  next
    case False
    then show ?thesis using generateBody_issues[OF Some] by simp
  qed
qed

lemma generateLoop_requests:
  "\<exists>new. issued (fst (generateLoop w p cc ip i mcs le s)) = issued s @ new
         \<and> requestsFollowOverrides mcs cc new"
proof -
  let ?P = "\<lambda>s' :: state. \<exists>new. issued s' = issued s @ new \<and> requestsFollowOverrides mcs cc new"
  have "?P (fst (generateLoop w p cc ip i mcs le s))"
  proof (rule generateLoop_preserves[where P = ?P])
    show "?P s" by (simp add: requestsFollowOverrides_def)
  next
    fix i mc le and s0 :: state
    assume mc: "mc \<in> set mcs" and "?P s0"
    then obtain new where n: "issued s0 = issued s @ new" "requestsFollowOverrides mcs cc new"
      by blast
    from generateBody_requests[of w p cc ip i mc le s0]
    show "?P (fst (generateBody w p cc ip i mc le s0))"
    proof
      assume "issued (fst (generateBody w p cc ip i mc le s0)) = issued s0"
      then show ?thesis using n by auto
    next
      assume a: "issued (fst (generateBody w p cc ip i mc le s0)) = issued s0 @ [requestOf mc p cc ip]"
      have "requestsFollowOverrides mcs cc (new @ [requestOf mc p cc ip])"
        using n(2) mc overridesApplied_requestOf[of mc cc p ip]
        by (auto simp: requestsFollowOverrides_def)
      then show ?thesis
        using a n(1) by (intro exI[of _ "new @ [requestOf mc p cc ip]"]) simp
    qed
  qed
  then show ?thesis .
qed

text \<open>
  C6, as amended. Every request that a call of \<^verbatim>\<open>generateWithFallback\<close> issues is
  addressed to a candidate of the registry and follows the overrides of the call: a Gemini
  request carries the candidate's configuration with the overrides spread over it, key by
  key; a Groq request carries the override's \<^verbatim>\<open>temperature\<close> and \<^verbatim>\<open>maxOutputTokens\<close> (the
  latter as \<^verbatim>\<open>max_tokens\<close>) where they are truthy and the candidate's \<^verbatim>\<open>temperature\<close> and
  \<^verbatim>\<open>max_tokens\<close> where the overrides leave them out.
\<close>

theorem overrides_reach_provider:
  "requestsFollowOverrides MODEL_PRIORITY cc
     (newCalls s (fst (generateWithFallback w p cc ip s)))"
proof -
  from generateLoop_requests[of w p cc ip 0 MODEL_PRIORITY None s]
  obtain new where "issued (fst (generateLoop w p cc ip 0 MODEL_PRIORITY None s)) = issued s @ new"
    "requestsFollowOverrides MODEL_PRIORITY cc new"
    by blast
  then show ?thesis by (simp add: generateWithFallback_def newCalls_def)
qed

theorem overrides_reach_provider_witness:
  "newCalls initialState
     (fst (generateWithFallback geminiDownEnv ''p''
             [(''temperature'', JNum (3 / 10)), (''maxOutputTokens'', JNum 600)] None initialState))
     = [GeminiGenerate \<lparr>gmodel = ''gemini-2.5-flash'',
                        generationConfig = [(''temperature'', JNum (3 / 10)), (''topK'', JNum 40),
                                            (''topP'', JNum (95 / 100)),
                                            (''maxOutputTokens'', JNum 600)],
                        contents = Prompt ''p''\<rparr>,
        GeminiGenerate \<lparr>gmodel = ''gemini-2.5-flash-lite'',
                        generationConfig = [(''temperature'', JNum (3 / 10)), (''topK'', JNum 40),
                                            (''topP'', JNum (95 / 100)),
                                            (''maxOutputTokens'', JNum 600)],
                        contents = Prompt ''p''\<rparr>,
        GroqCreate \<lparr>model = ''llama-3.3-70b-versatile'',
                    messages = [\<lparr>role = ''user'', content = JStr ''p''\<rparr>],
                    temperature = JNum (3 / 10), max_tokens = JNum 600\<rparr>]
   \<and> requestsFollowOverrides MODEL_PRIORITY
        [(''temperature'', JNum (3 / 10)), (''maxOutputTokens'', JNum 600)]
        [GeminiGenerate \<lparr>gmodel = ''gemini-2.5-flash'',
                        generationConfig = [(''temperature'', JNum (3 / 10)), (''topK'', JNum 40),
                                            (''topP'', JNum (95 / 100)),
                                            (''maxOutputTokens'', JNum 600)],
                        contents = Prompt ''p''\<rparr>,
        GeminiGenerate \<lparr>gmodel = ''gemini-2.5-flash-lite'',
                        generationConfig = [(''temperature'', JNum (3 / 10)), (''topK'', JNum 40),
                                            (''topP'', JNum (95 / 100)),
                                            (''maxOutputTokens'', JNum 600)],
                        contents = Prompt ''p''\<rparr>,
        GroqCreate \<lparr>model = ''llama-3.3-70b-versatile'',
                    messages = [\<lparr>role = ''user'', content = JStr ''p''\<rparr>],
                    temperature = JNum (3 / 10), max_tokens = JNum 600\<rparr>]"
proof -
  let ?cc = "[(''temperature'', JNum (3 / 10)), (''maxOutputTokens'', JNum 600)]"
  let ?calls = "newCalls initialState (fst (generateWithFallback geminiDownEnv ''p'' ?cc None initialState))"
  have ev: "?calls
     = [GeminiGenerate \<lparr>gmodel = ''gemini-2.5-flash'',
                        generationConfig = [(''temperature'', JNum (3 / 10)), (''topK'', JNum 40),
                                            (''topP'', JNum (95 / 100)),
                                            (''maxOutputTokens'', JNum 600)],
                        contents = Prompt ''p''\<rparr>,
        GeminiGenerate \<lparr>gmodel = ''gemini-2.5-flash-lite'',
                        generationConfig = [(''temperature'', JNum (3 / 10)), (''topK'', JNum 40),
                                            (''topP'', JNum (95 / 100)),
                                            (''maxOutputTokens'', JNum 600)],
                        contents = Prompt ''p''\<rparr>,
        GroqCreate \<lparr>model = ''llama-3.3-70b-versatile'',
                    messages = [\<lparr>role = ''user'', content = JStr ''p''\<rparr>],
                    temperature = JNum (3 / 10), max_tokens = JNum 600\<rparr>]"
    by code_simp
  have "requestsFollowOverrides MODEL_PRIORITY ?cc ?calls"
    by (rule overrides_reach_provider)
  then show ?thesis unfolding ev by simp
qed

theorem groq_ignores_max_tokens_override:
  "map_of (config (MODEL_PRIORITY ! 2)) ''max_tokens'' = Some (JNum 8000)
   \<and> map_of [(''max_tokens'', JNum 100)] ''max_tokens'' = Some (JNum 100)
   \<and> newCalls initialState
        (fst (generateWithFallback geminiDownEnv ''p'' [(''max_tokens'', JNum 100)] None initialState))
       ! 2
      = GroqCreate \<lparr>model = ''llama-3.3-70b-versatile'',
                    messages = [\<lparr>role = ''user'', content = JStr ''p''\<rparr>],
                    temperature = JNum (7 / 10), max_tokens = JNum 8000\<rparr>"
  by code_simp

text \<open>On the Groq path \<^verbatim>\<open>||\<close> also replaces an override that is present and falsy.\<close>

lemma groq_replaces_zero_temperature:
  "temperature (groqGenerateRequest (MODEL_PRIORITY ! 2) ''p'' [(''temperature'', JNum 0)])
     = JNum (7 / 10)"
  by code_simp

subsection \<open>Requests that miss a required field\<close>





subsection \<open>What the loops throw, and the chat object of a pass\<close>

lemma generateBody_Thrown:
  assumes "generateBody w p cc ip i mc le s = (s', Thrown e)"
  shows "e = TypeError"
proof (cases "modelStats s (name mc)")
  case None
  then show ?thesis using assms by (simp add: generateBody_missing)
next
  case (Some st)
  show ?thesis
  proof (cases "recentlyRateLimited st (nowCheck w i) \<or> mismatched mc ip")
    case True
    then show ?thesis using assms generateBody_skip[OF Some True] by simp
  next
    case False
    then have nc: "\<not> recentlyRateLimited st (nowCheck w i)" and nm: "\<not> mismatched mc ip" by auto
    show ?thesis
    proof (cases "providerOutcome w mc p cc ip")
      case (Resolves t)
      then show ?thesis using assms generateBody_ok[OF Some nc nm Resolves] by simp
    next
      case (Throws e')
      then show ?thesis using assms generateBody_fail[OF Some nc nm Throws] by simp
    qed
  qed
qed

lemma chatBody_Thrown:
  assumes "chatBody w msg i mc vars s = (s', Thrown e)"
  shows "e = TypeError"
proof (cases "modelStats s (name mc)")
  case None
  then show ?thesis using assms by (simp add: chatBody_missing)
next
  case (Some st)
  show ?thesis
  proof (cases "recentlyRateLimited st (nowCheck w i)")
    case True
    then show ?thesis using assms chatBody_cool[OF Some True] by simp
  next
    case nc: False
    from Some nc show ?thesis
      by (cases rule: chatPass_cases[where msg = msg and vars = vars]) (use assms in simp_all)
  qed
qed

text \<open>Both functions throw a \<^verbatim>\<open>TypeError\<close> for a name without statistics and their
  \<^verbatim>\<open>AppError\<close> with status 503 otherwise; the one of the chat path is a constant.\<close>

lemma generateLoop_error:
  assumes "generateLoop w p cc ip i mcs le s = (s', Inl e)"
  shows "e = TypeError \<or> (\<exists>le'. e = generateExhausted le')"
  using assms
proof (induction mcs arbitrary: i le s)
  case Nil
  then show ?case by auto
next
  case (Cons mc rest)
  obtain s1 f where b: "generateBody w p cc ip i mc le s = (s1, f)"
    by (cases "generateBody w p cc ip i mc le s")
  show ?case
  proof (cases f)
    case (Returned r)
    then show ?thesis using Cons.prems b by simp
  next
    case (Thrown e')
    then have "e' = e" using Cons.prems b by simp
    then show ?thesis using generateBody_Thrown b Thrown by blast
  next
    case (Continued le1)
    then have "generateLoop w p cc ip (Suc i) rest le1 s1 = (s', Inl e)"
      using Cons.prems b by simp
    then show ?thesis by (rule Cons.IH)
  qed
qed

lemma chatLoop_error:
  assumes "chatLoop w msg i mcs vars s = (s', Inl e)"
  shows "e = TypeError \<or> e = chatExhausted"
  using assms
proof (induction mcs arbitrary: i vars s)
  case Nil
  then show ?case by auto
next
  case (Cons mc rest)
  obtain s1 f where b: "chatBody w msg i mc vars s = (s1, f)"
    by (cases "chatBody w msg i mc vars s")
  show ?case
  proof (cases f)
    case (Returned r)
    then show ?thesis using Cons.prems b by simp
  next
    case (Thrown e')
    then have "e' = e" using Cons.prems b by simp
    then show ?thesis using chatBody_Thrown b Thrown by blast
  next
    case (Continued vars1)
    then have "chatLoop w msg (Suc i) rest vars1 s1 = (s', Inl e)"
      using Cons.prems b by simp
    then show ?thesis by (rule Cons.IH)
  qed
qed

text \<open>
  A pass for a Gemini candidate sends the message on the chat object it finds behind the
  variable \<^verbatim>\<open>chat\<close> when that object is bound to the candidate, and the SDK extends the
  history of that very object; for any other value of the variable the pass starts a new
  object from the two priming turns.
\<close>

lemma chatFor_same:
  "chatAt s a = Some c \<Longrightarrow> modelName c = name mc \<Longrightarrow> chatFor mc (Some a) s = ((a, c), s)"
  by (simp add: chatFor_def)

lemma chatFor_other:
  "chatAt s a = Some c \<Longrightarrow> modelName c \<noteq> name mc \<Longrightarrow> chatFor mc (Some a) s = startChatFor mc s"
  by (simp add: chatFor_def)

lemma chatFor_none: "chatFor mc None s = startChatFor mc s"
  by (simp add: chatFor_def)

lemma history_startChat: "history (startChat mc) = initialHistory"
  by (simp add: startChat_def)

lemma chatAt_appendTurns:
  "chatAt s a = Some c \<Longrightarrow> chatAt (appendTurns a ts s) a = Some (c\<lparr>history := history c @ ts\<rparr>)"
  by (auto simp: appendTurns_def chatAt_def split: if_splits)

subsection \<open>Inputs at which the code departs from the specification\<close>

text \<open>
  C1. One second after \<^verbatim>\<open>gemini-2.5-flash\<close> was rate limited it is in its cooldown window.
  A call of \<^verbatim>\<open>generateWithFallback\<close> then skips it and issues no request, but takes its
  \<open>attempts\<close> from 1 to 2; a call of \<^verbatim>\<open>chatWithFallback\<close> in the same state leaves the
  counter at 1.
\<close>

theorem generate_counts_cooldown_skip:
  "modelStats rateLimitedState ''gemini-2.5-flash''
     = Some \<lparr>attempts = 1, failures = 1, lastFailure = Some 1000, rateLimitHits = 1\<rparr>
   \<and> recentlyRateLimited
        \<lparr>attempts = 1, failures = 1, lastFailure = Some 1000, rateLimitHits = 1\<rparr> 2000
   \<and> modelStats (fst (generateWithFallback (failingEnv ''boom'' 2000) ''p'' [] None rateLimitedState))
        ''gemini-2.5-flash''
       = Some \<lparr>attempts = 2, failures = 1, lastFailure = Some 1000, rateLimitHits = 1\<rparr>
   \<and> newCalls rateLimitedState
        (fst (generateWithFallback (failingEnv ''boom'' 2000) ''p'' [] None rateLimitedState)) = []
   \<and> modelStats (fst (chatWithFallback (failingEnv ''boom'' 2000) None (JStr ''hi'')
                        (JStr ''default'') rateLimitedState))
        ''gemini-2.5-flash''
       = Some \<lparr>attempts = 1, failures = 1, lastFailure = Some 1000, rateLimitHits = 1\<rparr>"
  by (simp add: rateLimitedState_def eval_defs failingEnv_def status_429_rate_limit
        boom_not_rate_limit)

text \<open>
  C3. When every provider throws an error with the message \<^verbatim>\<open>boom\<close>, both functions throw
  an \<^verbatim>\<open>AppError\<close> with status 503. The message of \<^verbatim>\<open>generateWithFallback\<close> ends with the
  message of the last error; the message of \<^verbatim>\<open>chatWithFallback\<close> is a fixed text that does
  not contain it.
\<close>

theorem chat_exhaustion_drops_last_error:
  "snd (generateWithFallback (failingEnv ''boom'' 1000) ''p'' [] None initialState)
     = Inl (AppError ''AI service temporarily unavailable. Please try again in a moment. Last error: boom'' 503)
   \<and> snd (chatWithFallback (failingEnv ''boom'' 1000) None (JStr ''hi'') (JStr ''default'')
             initialState)
       = Inl (AppError ''AI chat temporarily unavailable. Please try again in a moment.'' 503)
   \<and> \<not> str_includes ''AI chat temporarily unavailable. Please try again in a moment.'' ''boom''"
proof -
  have "\<not> str_includes ''AI chat temporarily unavailable. Please try again in a moment.'' ''boom''"
    by code_simp
  then show ?thesis
    by (simp add: eval_defs failingEnv_def boom_not_rate_limit)
qed

text \<open>
  C8. Two messages are sent to \<^verbatim>\<open>/api/chat\<close> under the key \<^verbatim>\<open>default\<close> while
  \<^verbatim>\<open>gemini-2.5-flash\<close> throws an error that is no rate limit and \<^verbatim>\<open>gemini-2.5-flash-lite\<close>
  answers. Both turns are served by \<^verbatim>\<open>gemini-2.5-flash-lite\<close>, and after the first turn its
  chat, with the first exchange in the history, is stored. In the second turn the failed
  pass for \<^verbatim>\<open>gemini-2.5-flash\<close> has replaced the variable \<^verbatim>\<open>chat\<close>, so the message is sent
  on a chat started afresh for \<^verbatim>\<open>gemini-2.5-flash-lite\<close>, and the session stored afterwards
  has lost the first exchange.
\<close>

theorem same_model_loses_history:
  "snd (api_chat flashDownEnv (loggedIn [(''message'', JStr ''first'')]) initialState)
     = Json [(''reply'', JStr ''reply''), (''success'', JBool True),
             (''sessionId'', JStr ''default''), (''modelUsed'', JStr ''gemini-2.5-flash-lite''),
             (''provider'', JStr ''gemini'')]
   \<and> sessionOf (fst (api_chat flashDownEnv (loggedIn [(''message'', JStr ''first'')]) initialState))
        (JStr ''default'')
       = Some \<lparr>modelName = ''gemini-2.5-flash-lite'', chatConfig = geminiConfig 8000,
               history = initialHistory @ [(''user'', JStr ''first''), (''model'', JStr ''reply'')]\<rparr>
   \<and> snd (api_chat flashDownEnv (loggedIn [(''message'', JStr ''second'')])
             (fst (api_chat flashDownEnv (loggedIn [(''message'', JStr ''first'')]) initialState)))
       = Json [(''reply'', JStr ''reply''), (''success'', JBool True),
               (''sessionId'', JStr ''default''), (''modelUsed'', JStr ''gemini-2.5-flash-lite''),
               (''provider'', JStr ''gemini'')]
   \<and> newCalls (fst (api_chat flashDownEnv (loggedIn [(''message'', JStr ''first'')]) initialState))
        (fst (api_chat flashDownEnv (loggedIn [(''message'', JStr ''second'')])
                (fst (api_chat flashDownEnv (loggedIn [(''message'', JStr ''first'')]) initialState))))
       = [GeminiSend \<lparr>modelName = ''gemini-2.5-flash'', chatConfig = geminiConfig 8000,
                      history = initialHistory\<rparr> (JStr ''second''),
          GeminiSend \<lparr>modelName = ''gemini-2.5-flash-lite'', chatConfig = geminiConfig 8000,
                      history = initialHistory\<rparr> (JStr ''second'')]
   \<and> sessionOf
        (fst (api_chat flashDownEnv (loggedIn [(''message'', JStr ''second'')])
                (fst (api_chat flashDownEnv (loggedIn [(''message'', JStr ''first'')]) initialState))))
        (JStr ''default'')
       = Some \<lparr>modelName = ''gemini-2.5-flash-lite'', chatConfig = geminiConfig 8000,
               history = initialHistory @ [(''user'', JStr ''second''), (''model'', JStr ''reply'')]\<rparr>"
  by (simp add: eval_defs flashDownEnv_def loggedIn_def boom_not_rate_limit)

end
